theory Spec2Isabelle
  imports Complex_Main "HOL-Library.Multiset"
begin

section \<open>JavaScript values used by the conversion route\<close>

text \<open>
  The fields of the request body are strings, or absent (\<open>undefined\<close>, here \<open>None\<close>).
  A string is a list of 8-bit characters, each standing for the code unit of the same
  value: the strings of the model are the JavaScript strings whose code units are all
  below 256, which is what multer hands over as the name of an upload. (The one string
  that leaves this range, the name re-decoded by \<open>processConvertTask\<close>, is kept as its
  UTF-8 bytes, see \<open>decodeName\<close>.) A JavaScript number is an integer or \<open>NaN\<close>: the route
  only produces numbers with \<open>parseInt\<close> and by adding, subtracting and comparing them.
  Integers are exact here; JavaScript's are exact below \<open>2^53\<close> and rounded above.
\<close>

datatype jsnum = Num int | NaN

fun truthy :: "string option \<Rightarrow> bool" where
  "truthy None = False"
| "truthy (Some s) = (s \<noteq> [])"

definition digit_chars :: string where
  "digit_chars = ''0123456789''"

fun toString_nat :: "nat \<Rightarrow> string" where
  "toString_nat n =
     (if n < 10 then [digit_chars ! n]
      else toString_nat (n div 10) @ [digit_chars ! (n mod 10)])"

declare toString_nat.simps [simp del]

fun toString :: "jsnum \<Rightarrow> string" where
  "toString NaN = ''NaN''"
| "toString (Num i) = (if i < 0 then CHR ''-'' # toString_nat (nat (- i)) else toString_nat (nat i))"

definition padStart :: "nat \<Rightarrow> char \<Rightarrow> string \<Rightarrow> string" where
  \<comment> \<open>\<open>s.padStart(w, c)\<close> with a one-character filler: \<open>s\<close> itself when it is long enough\<close>
  "padStart w c s = replicate (w - length s) c @ s"

definition lower_char :: "char \<Rightarrow> char" where
  "lower_char c =
     (case map_of (zip ''ABCDEFGHIJKLMNOPQRSTUVWXYZ'' ''abcdefghijklmnopqrstuvwxyz'') c of
        Some d \<Rightarrow> d
      | None \<Rightarrow> c)"

definition toLowerCase :: "string \<Rightarrow> string" where
  "toLowerCase s = map lower_char s"

definition endsWith :: "string \<Rightarrow> string \<Rightarrow> bool" where
  "endsWith s t = (length t \<le> length s \<and> drop (length s - length t) s = t)"

definition startsWith :: "string \<Rightarrow> string \<Rightarrow> bool" where
  "startsWith s t = (take (length t) s = t)"

subsection \<open>parseInt\<close>

text \<open>
  \<open>parseInt(s)\<close> with no radix: leading white space is skipped, one sign is read, a
  \<open>0x\<close> prefix selects base sixteen, and the longest run of digits is the value; no
  digit at all gives \<open>NaN\<close>. Of JavaScript's white space, the characters below 256 are
  tab, line feed, vertical tab, form feed, carriage return, space and the no-break space
  \<open>U+00A0\<close>.
\<close>

definition isWhite :: "char \<Rightarrow> bool" where
  "isWhite c = (c \<in> set [CHR '' '', CHR 0x09, CHR 0x0A, CHR 0x0B, CHR 0x0C, CHR 0x0D, CHR 0xA0])"

definition digitVal :: "nat \<Rightarrow> char \<Rightarrow> nat option" where
  "digitVal radix c =
     (case map_of (zip ''0123456789abcdef'' [0, 1, 2, 3, 4, 5, 6, 7, 8, 9, 10, 11, 12, 13, 14, 15]) (lower_char c) of
        Some d \<Rightarrow> (if d < radix then Some d else None)
      | None \<Rightarrow> None)"

fun readDigits :: "nat \<Rightarrow> string \<Rightarrow> nat option \<Rightarrow> nat option" where
  "readDigits radix [] acc = acc"
| "readDigits radix (c # cs) acc =
     (case digitVal radix c of
        None \<Rightarrow> acc
      | Some d \<Rightarrow> readDigits radix cs (Some (radix * (case acc of None \<Rightarrow> 0 | Some a \<Rightarrow> a) + d)))"

definition parseInt :: "string \<Rightarrow> jsnum" where
  "parseInt s =
     (let t = dropWhile isWhite s;
          neg = (t \<noteq> [] \<and> hd t = CHR ''-'');
          u = (if t \<noteq> [] \<and> (hd t = CHR ''-'' \<or> hd t = CHR ''+'') then tl t else t);
          hex = (startsWith u ''0x'' \<or> startsWith u ''0X'');
          v = (if hex then readDigits 16 (drop 2 u) None else readDigits 10 u None)
      in case v of
           None \<Rightarrow> NaN
         | Some n \<Rightarrow> Num (if neg then - int n else int n))"

subsection \<open>Arithmetic and comparison with NaN\<close>

fun Math_max :: "jsnum \<Rightarrow> jsnum \<Rightarrow> jsnum" where
  "Math_max (Num a) (Num b) = Num (max a b)"
| "Math_max _ _ = NaN"

fun Math_min :: "jsnum \<Rightarrow> jsnum \<Rightarrow> jsnum" where
  "Math_min (Num a) (Num b) = Num (min a b)"
| "Math_min _ _ = NaN"

fun js_add :: "jsnum \<Rightarrow> jsnum \<Rightarrow> jsnum" where
  "js_add (Num a) (Num b) = Num (a + b)"
| "js_add _ _ = NaN"

fun js_sub :: "jsnum \<Rightarrow> jsnum \<Rightarrow> jsnum" where
  "js_sub (Num a) (Num b) = Num (a - b)"
| "js_sub _ _ = NaN"

fun js_ge :: "jsnum \<Rightarrow> jsnum \<Rightarrow> bool" where
  "js_ge (Num a) (Num b) = (a \<ge> b)"
| "js_ge _ _ = False"

fun js_gt :: "jsnum \<Rightarrow> jsnum \<Rightarrow> bool" where
  "js_gt (Num a) (Num b) = (a > b)"
| "js_gt _ _ = False"

fun js_lt :: "jsnum \<Rightarrow> jsnum \<Rightarrow> bool" where
  "js_lt (Num a) (Num b) = (a < b)"
| "js_lt _ _ = False"

section \<open>The request of the /convert route\<close>

record request =
  dpi :: "string option"
  maxWidth :: "string option"
  colorMode :: "string option"
  pageStart :: "string option"
  pageEnd :: "string option"
  format :: "string option"
  compression :: "string option"
  archiveCompression :: "string option"
  imgFormat :: "string option"
  rotation :: "string option"
  splitDouble :: "string option"
  readingDir :: "string option"
  requestId :: "string option"

definition isOriginal :: "request \<Rightarrow> bool" where
  "isOriginal req = (dpi req = Some ''original'')"

definition rotAngle :: "request \<Rightarrow> jsnum" where
  "rotAngle req = (if truthy (rotation req) then parseInt (the (rotation req)) else Num 0)"

definition maxW :: "request \<Rightarrow> jsnum option" where
  "maxW req = (if truthy (maxWidth req) then Some (parseInt (the (maxWidth req))) else None)"

definition dpiVal :: "request \<Rightarrow> jsnum option" where
  "dpiVal req =
     (if isOriginal req then None
      else Some (if truthy (dpi req) then parseInt (the (dpi req)) else Num 225))"

definition compVal :: "request \<Rightarrow> jsnum" where
  "compVal req = (if truthy (compression req) then parseInt (the (compression req)) else Num 80)"

definition archCompVal :: "request \<Rightarrow> jsnum" where
  "archCompVal req =
     (case archiveCompression req of None \<Rightarrow> Num 5 | Some s \<Rightarrow> parseInt s)"

definition safeImgFormat :: "request \<Rightarrow> string" where
  "safeImgFormat req = toLowerCase (if truthy (imgFormat req) then the (imgFormat req) else ''jpeg'')"

section \<open>Archive assembly\<close>

definition allowedFormats :: "string list" where
  "allowedFormats = [''cbz'', ''cbt'', ''cb7'', ''cbr'', ''pdf'', ''rar4'', ''folder'']"

definition safeFormat :: "request \<Rightarrow> string" where
  "safeFormat req =
     (case format req of
        None \<Rightarrow> ''cbz''
      | Some f \<Rightarrow> if f \<in> set allowedFormats then f else ''cbz'')"

definition outputFileName :: "string \<Rightarrow> string \<Rightarrow> string" where
  \<comment> \<open>the three assignments to \<open>outputFileName\<close>, the later ones overriding the first\<close>
  "outputFileName baseName fmt =
     (if fmt = ''folder'' then baseName
      else if fmt = ''rar4'' then baseName @ ''.cbr''
      else baseName @ ''.'' @ fmt)"

text \<open>
  The packer invocation chosen by the \<open>if\<close> chain on \<open>safeFormat\<close>, with the level it is
  given: \<open>7z -mx=level\<close> for cb7 and cbz, \<open>rar -m\<close>\<open>rarComp\<close> for cbr and rar4.
\<close>

datatype packer =
    NoArchive
  | PdfDocument
  | Tar
  | SevenZip_7z jsnum
  | Rar int
  | Rar_ma4 int
  | SevenZip_zip jsnum

fun packer_level :: "packer \<Rightarrow> jsnum option" where
  \<comment> \<open>the compression level on the command line, for the packers that take one\<close>
  "packer_level (SevenZip_7z l) = Some l"
| "packer_level (SevenZip_zip l) = Some l"
| "packer_level (Rar n) = Some (Num n)"
| "packer_level (Rar_ma4 n) = Some (Num n)"
| "packer_level _ = None"

definition rarComp_convert :: "request \<Rightarrow> int" where
  \<comment> \<open>\<open>processConvertTask\<close>: \<open>let rarComp = 3; if (isOriginal) rarComp = 0; else { ... }\<close>\<close>
  "rarComp_convert req =
     (if isOriginal req then 0
      else if archCompVal req = Num 0 then 0
      else if archCompVal req = Num 1 then 1
      else if archCompVal req = Num 3 then 2
      else if archCompVal req = Num 5 then 3
      else if archCompVal req = Num 7 then 4
      else if archCompVal req = Num 9 then 5
      else 3)"

definition rarComp_merge :: "request \<Rightarrow> int" where
  \<comment> \<open>\<open>processMergeTask\<close>: \<open>isOriginal ? 0 : (archCompVal === 0 ? 0 : 3)\<close>\<close>
  "rarComp_merge req =
     (if isOriginal req then 0 else if archCompVal req = Num 0 then 0 else 3)"

definition sevenZipLevel :: "request \<Rightarrow> jsnum" where
  \<comment> \<open>\<open>const level = isOriginal ? 0 : archCompVal\<close>\<close>
  "sevenZipLevel req = (if isOriginal req then Num 0 else archCompVal req)"

definition packer_convert :: "request \<Rightarrow> packer" where
  "packer_convert req =
     (let fmt = safeFormat req in
      if fmt = ''folder'' then NoArchive
      else if fmt = ''pdf'' then PdfDocument
      else if fmt = ''cbt'' then Tar
      else if fmt = ''cb7'' then SevenZip_7z (sevenZipLevel req)
      else if fmt = ''cbr'' then Rar (rarComp_convert req)
      else if fmt = ''rar4'' then Rar_ma4 (rarComp_convert req)
      else SevenZip_zip (sevenZipLevel req))"

definition packer_merge :: "request \<Rightarrow> packer" where
  "packer_merge req =
     (let fmt = safeFormat req in
      if fmt = ''folder'' then NoArchive
      else if fmt = ''pdf'' then PdfDocument
      else if fmt = ''cbt'' then Tar
      else if fmt = ''cb7'' then SevenZip_7z (sevenZipLevel req)
      else if fmt = ''cbr'' then Rar (rarComp_merge req)
      else if fmt = ''rar4'' then Rar_ma4 (rarComp_merge req)
      else SevenZip_zip (sevenZipLevel req))"


section \<open>Paths\<close>

text \<open>
  \<open>path.extname\<close> of Node.js on a POSIX host: trailing separators are dropped, the last
  path segment is taken, and the extension runs from its last dot to its end. It is empty
  when the segment has no dot, when its only dot is its first character, and for \<open>..\<close>.
\<close>

definition basename :: "string \<Rightarrow> string" where
  "basename p =
     (let q = rev (dropWhile (\<lambda>c. c = CHR ''/'') (rev p))
      in rev (takeWhile (\<lambda>c. c \<noteq> CHR ''/'') (rev q)))"

definition extname :: "string \<Rightarrow> string" where
  "extname p =
     (let base = basename p;
          ext = CHR ''.'' # rev (takeWhile (\<lambda>c. c \<noteq> CHR ''.'') (rev base))
      in if CHR ''.'' \<notin> set base then []
         else if length ext = length base then []
         else if base = ''..'' then []
         else ext)"

definition parse_name :: "string \<Rightarrow> string" where
  \<comment> \<open>\<open>path.parse(p).name\<close>: the last segment without its extension\<close>
  "parse_name p = take (length (basename p) - length (extname p)) (basename p)"

section \<open>Page files\<close>

text \<open>
  An image file in a task's temporary directory: its name, the length of its content,
  and what the image library does with it. \<open>decoded\<close> is \<open>Inr (width, height)\<close> when sharp
  reads the file (an absent width or height is \<open>0\<close>) and \<open>Inl message\<close> when sharp throws
  on it. \<open>extractOk\<close> says whether cutting the two halves out of the page and writing them
  (\<open>extract\<close>, \<open>toBuffer\<close>, \<open>writeFileSync\<close>) goes through.
\<close>

record image_file =
  fname :: string
  bytes :: nat
  decoded :: "string + nat \<times> nat"
  extractOk :: bool

section \<open>processConvertTask: paginated documents\<close>

definition isPdf :: "string \<Rightarrow> bool" where
  "isPdf filename = endsWith (toLowerCase filename) ''.pdf''"

definition pStart :: "request \<Rightarrow> jsnum" where
  \<comment> \<open>\<open>pageStart ? parseInt(pageStart) : 1\<close>\<close>
  "pStart req = (if truthy (pageStart req) then parseInt (the (pageStart req)) else Num 1)"

definition pEnd :: "request \<Rightarrow> nat \<Rightarrow> jsnum" where
  \<comment> \<open>\<open>pageEnd ? parseInt(pageEnd) : totalPages\<close> (\<open>totalExtracted\<close> for an archive)\<close>
  "pEnd req totalPages = (if truthy (pageEnd req) then parseInt (the (pageEnd req)) else Num (int totalPages))"

definition pdf_effectiveTotalPages :: "request \<Rightarrow> nat option \<Rightarrow> jsnum option" where
  \<comment> \<open>\<open>totalPages\<close> is what \<open>getPageCount\<close> resolves to: a count, or \<open>null\<close> (\<open>None\<close>)\<close>
  "pdf_effectiveTotalPages req totalPages =
     (case totalPages of
        None \<Rightarrow> None
      | Some T \<Rightarrow>
          if T = 0 then Some (Num 0)
          else
            (let actualStart = Math_max (Num 1) (pStart req);
                 actualEnd = Math_min (Num (int T)) (pEnd req T)
             in if js_ge actualEnd actualStart
                then Some (js_add (js_sub actualEnd actualStart) (Num 1))
                else Some (Num (int T))))"

datatype tool = pdftoppm | pdfimages

definition range_args :: "request \<Rightarrow> string list" where
  "range_args req =
     (if truthy (pageStart req) then [''-f'', the (pageStart req)] else []) @
     (if truthy (pageEnd req) then [''-l'', the (pageEnd req)] else [])"

definition color_args :: "request \<Rightarrow> string list" where
  "color_args req =
     (if colorMode req = Some ''gray'' then [''-gray''] else []) @
     (if colorMode req = Some ''mono'' then [''-mono''] else [])"

definition pdf_tool :: "request \<Rightarrow> tool" where
  "pdf_tool req = (if isOriginal req then pdfimages else pdftoppm)"

definition pdf_args :: "request \<Rightarrow> string \<Rightarrow> string \<Rightarrow> string list" where
  "pdf_args req filePath outputPrefix =
     (if isOriginal req then
        [''-all''] @ range_args req @ [filePath, outputPrefix]
      else
        [''-r'', toString (the (dpiVal req))] @
        (case maxW req of
           None \<Rightarrow> []
         | Some m \<Rightarrow>
             if js_gt m (Num 0) then [''-scale-to-x'', toString m, ''-scale-to-y'', ''-1''] else []) @
        (if safeImgFormat req = ''png'' then [''-png''] @ color_args req
         else if safeImgFormat req = ''tiff'' then [''-tiff''] @ color_args req
         else
           [''-jpeg''] @
           (if truthy (compression req) then [''-jpegopt'', ''quality='' @ toString (compVal req)] else []) @
           (if colorMode req = Some ''gray'' \<or> colorMode req = Some ''mono'' then [''-gray''] else [])) @
        range_args req @ [filePath, outputPrefix])"

text \<open>
  What is done to the pages of a document, in order: the external tool runs, every page
  is rotated when an angle is set and the image library is there, and wide pages are
  split when that is asked for outside original mode.
\<close>

datatype page_step = RunTool tool "string list" | RotatePages jsnum | SplitWidePages

definition splitActive :: "request \<Rightarrow> bool \<Rightarrow> bool" where
  \<comment> \<open>\<open>splitDouble === 'auto' && sharp && !isOriginal\<close>\<close>
  "splitActive req sharp = (splitDouble req = Some ''auto'' \<and> sharp \<and> \<not> isOriginal req)"

definition pdf_steps :: "request \<Rightarrow> bool \<Rightarrow> string \<Rightarrow> string \<Rightarrow> page_step list" where
  "pdf_steps req sharp filePath outputPrefix =
     [RunTool (pdf_tool req) (pdf_args req filePath outputPrefix)] @
     (if rotAngle req \<noteq> Num 0 \<and> sharp then [RotatePages (rotAngle req)] else []) @
     (if splitActive req sharp then [SplitWidePages] else [])"

subsection \<open>Splitting double pages\<close>

definition loopBound :: "nat \<Rightarrow> jsnum option \<Rightarrow> nat" where
  \<comment> \<open>the number of rounds of \<open>for (i = 0; i < Math.min(len, eff); i++)\<close>; \<open>null\<close> counts as 0\<close>
  "loopBound len eff =
     (case eff of
        None \<Rightarrow> 0
      | Some NaN \<Rightarrow> 0
      | Some (Num k) \<Rightarrow> if k < 0 then 0 else min len (nat k))"

definition slice0 :: "'a list \<Rightarrow> jsnum option \<Rightarrow> 'a list" where
  \<comment> \<open>\<open>xs.slice(0, eff)\<close>: a negative end counts from the end, \<open>null\<close> and \<open>NaN\<close> are 0\<close>
  "slice0 xs eff =
     (case eff of
        None \<Rightarrow> []
      | Some NaN \<Rightarrow> []
      | Some (Num k) \<Rightarrow> if k < 0 then take (length xs - nat (- k)) xs else take (nat k) xs)"

text \<open>
  The test for a double page. The quotient is the exact one. The source divides two
  doubles and compares with the double nearest to 1.2, which lies below 1.2 by less than
  \<open>10^-16\<close>; for positive integers \<open>w\<close> and \<open>h < 10^15\<close> both tests agree, since
  \<open>w / h > 1.2\<close> then means \<open>w / h \<ge> 1.2 + 1 / (5 h)\<close>.
\<close>

definition isWide :: "image_file \<Rightarrow> bool" where
  \<comment> \<open>\<open>meta && meta.width && meta.height && (meta.width / meta.height) > 1.2\<close>\<close>
  "isWide f =
     (case decoded f of
        Inl e \<Rightarrow> False
      | Inr (w, h) \<Rightarrow> w \<noteq> 0 \<and> h \<noteq> 0 \<and> real w / real h > 1.2)"

text \<open>
  The loop over the pages. Everything the library does for one page sits in a \<open>try\<close>
  whose \<open>catch\<close> falls through to \<open>expandedFiles.push(f)\<close>: a page that cannot be read, or
  whose halves cannot be cut out and written, stays whole.
\<close>

definition leftName :: "nat \<Rightarrow> string" where
  "leftName i = ''split_'' @ toString_nat (i + 1) @ ''_a.jpg''"

definition rightName :: "nat \<Rightarrow> string" where
  "rightName i = ''split_'' @ toString_nat (i + 1) @ ''_b.jpg''"

definition isLtr :: "request \<Rightarrow> bool" where
  \<comment> \<open>\<open>(readingDir || 'ltr') === 'ltr'\<close>\<close>
  "isLtr req = ((if truthy (readingDir req) then the (readingDir req) else ''ltr'') = ''ltr'')"

function splitLoop :: "request \<Rightarrow> image_file list \<Rightarrow> nat \<Rightarrow> nat \<Rightarrow> string list \<Rightarrow> string list" where
  "splitLoop req imgFiles n i expandedFiles =
     (if i < n then
        (let f = imgFiles ! i in
         if isWide f \<and> extractOk f then
           splitLoop req imgFiles n (i + 1)
             (expandedFiles @ (if isLtr req then [leftName i, rightName i] else [rightName i, leftName i]))
         else splitLoop req imgFiles n (i + 1) (expandedFiles @ [fname f]))
      else expandedFiles)"
  by pat_completeness auto
termination
  by (relation "measure (\<lambda>(req, imgFiles, n, i, expandedFiles). n - i)") auto

declare splitLoop.simps [simp del]

definition expandedFiles :: "request \<Rightarrow> bool \<Rightarrow> image_file list \<Rightarrow> jsnum option \<Rightarrow> string list" where
  "expandedFiles req sharp imgFiles eff =
     (if splitActive req sharp
      then splitLoop req imgFiles (loopBound (length imgFiles) eff) 0 []
      else slice0 (map fname imgFiles) eff)"

subsection \<open>Renumbering\<close>

fun renumberFrom :: "nat \<Rightarrow> nat \<Rightarrow> string list \<Rightarrow> string list" where
  \<comment> \<open>\<open>finalPageFiles.forEach((f, idx) => ...)\<close>, giving the new names\<close>
  "renumberFrom padding idx [] = []"
| "renumberFrom padding idx (f # fs) =
     (padStart (max 3 padding) (CHR ''0'') (toString_nat (idx + 1)) @ extname f)
       # renumberFrom padding (idx + 1) fs"

definition renumber :: "string list \<Rightarrow> string list" where
  "renumber finalPageFiles =
     renumberFrom (length (toString_nat (length finalPageFiles))) 0 finalPageFiles"

text \<open>
  The document branch after the tool has run: \<open>imgFiles\<close> is the sorted listing of the
  page images. The branch throws when the listing is empty; otherwise it leaves the
  renumbered pages in the directory, together with the value of \<open>effectiveTotalPages\<close>.
\<close>

record page_outcome =
  finalPages :: "string list"
  effective :: "jsnum option"

definition convert_document ::
  "request \<Rightarrow> bool \<Rightarrow> string \<Rightarrow> nat option \<Rightarrow> image_file list \<Rightarrow> string + page_outcome" where
  "convert_document req sharp originalname totalPages imgFiles =
     (let effectiveTotalPages = pdf_effectiveTotalPages req totalPages in
      if imgFiles = [] then Inl (''No images generated for '' @ originalname)
      else Inr \<lparr> finalPages = renumber (expandedFiles req sharp imgFiles effectiveTotalPages),
                 effective = effectiveTotalPages \<rparr>)"

section \<open>processConvertTask: page-image archives\<close>

definition effStart :: "request \<Rightarrow> jsnum" where
  "effStart req = Math_max (Num 1) (pStart req)"

definition effEnd :: "request \<Rightarrow> nat \<Rightarrow> jsnum" where
  "effEnd req totalExtracted = Math_min (Num (int totalExtracted)) (pEnd req totalExtracted)"

definition archive_effectiveTotalPages :: "request \<Rightarrow> nat \<Rightarrow> jsnum" where
  \<comment> \<open>\<open>Math.max(0, effEnd - effStart + 1)\<close>\<close>
  "archive_effectiveTotalPages req totalExtracted =
     Math_max (Num 0) (js_add (js_sub (effEnd req totalExtracted) (effStart req)) (Num 1))"

definition outExt :: "request \<Rightarrow> string" where
  \<comment> \<open>\<open>let outExt = '.' + safeImgFormat; if (safeImgFormat === 'jpeg') outExt = '.jpg'\<close>\<close>
  "outExt req = (if safeImgFormat req = ''jpeg'' then ''.jpg'' else ''.'' @ safeImgFormat req)"

text \<open>
  The loop over the extracted images gives the names written to \<open>processed/\<close>, or the
  error that ends the task: \<open>pipeline.toFile\<close> is awaited outside any \<open>try\<close>, so an image
  that sharp throws on rejects the whole task. (Sharp is taken to accept the options of
  the request.) \<open>i\<close> is the loop index, \<open>rest\<close> is \<open>extractedImages\<close> from \<open>i\<close> on.
\<close>

fun consPage :: "string \<Rightarrow> string + string list \<Rightarrow> string + string list" where
  \<comment> \<open>this page is written, then the loop goes on\<close>
  "consPage n (Inl e) = Inl e"
| "consPage n (Inr ns) = Inr (n # ns)"

fun archiveLoop ::
  "request \<Rightarrow> bool \<Rightarrow> nat \<Rightarrow> nat \<Rightarrow> nat \<Rightarrow> nat \<Rightarrow> image_file list \<Rightarrow> string + string list" where
  "archiveLoop req sharp totalExtracted padding i processedCount [] = Inr []"
| "archiveLoop req sharp totalExtracted padding i processedCount (src # rest) =
     (let currentNum = Num (int i + 1) in
      if js_lt currentNum (effStart req) \<or> js_gt currentNum (effEnd req totalExtracted)
      then archiveLoop req sharp totalExtracted padding (i + 1) processedCount rest
      else
        (let num = padStart (max 3 padding) (CHR ''0'') (toString_nat (processedCount + 1));
             ext = toLowerCase (extname (fname src));
             needsProcessing = (\<not> isOriginal req \<or> rotAngle req \<noteq> Num 0);
             more = archiveLoop req sharp totalExtracted padding (i + 1) (processedCount + 1) rest
         in if \<not> needsProcessing then consPage (num @ ext) more
            else if sharp then
              (if bytes src = 0 then more
               else (case decoded src of
                       Inl e \<Rightarrow> Inl e
                     | Inr d \<Rightarrow> consPage (num @ outExt req) more))
            else consPage (num @ ext) more))"

definition convert_archive ::
  "request \<Rightarrow> bool \<Rightarrow> bool \<Rightarrow> image_file list \<Rightarrow> string + page_outcome" where
  \<comment> \<open>\<open>extractedImages\<close> is the sorted list of the images found in the extracted tree;
      \<open>processedClash\<close>: the tree has a top-level entry \<open>processed\<close>, so that
      \<open>fs.mkdirSync(processingDir)\<close> throws\<close>
  "convert_archive req sharp processedClash extractedImages =
     (let totalExtracted = length extractedImages;
          effectiveTotalPages = archive_effectiveTotalPages req totalExtracted
      in if effectiveTotalPages = Num 0 then Inl ''No images in range.''
         else if processedClash then Inl ''EEXIST: file already exists, mkdir''
         else
           (case archiveLoop req sharp totalExtracted
                   (length (toString effectiveTotalPages)) 0 0 extractedImages of
              Inl e \<Rightarrow> Inl e
            | Inr names \<Rightarrow> Inr \<lparr> finalPages = names, effective = Some effectiveTotalPages \<rparr>))"

section \<open>Whole tasks\<close>

text \<open>
  An uploaded file as multer hands it over: the name the client gave (with its folder when
  a folder was dropped, once the route has restored the names sent in \<open>filePaths\<close>) and
  the path of the staged copy, which stands for the file itself. What the external tools
  do for one task is given by a \<open>tool_env\<close>. Of the Result, the output path is left out.
\<close>

record upload =
  originalname :: string
  path :: string

record tool_env =
  pageCount :: "nat option"  \<comment> \<open>what \<open>getPageCount\<close> resolves to\<close>
  toolError :: "string option"  \<comment> \<open>the rasterizer or extractor rejects with this message\<close>
  listing :: "image_file list"  \<comment> \<open>the sorted page images the tool left behind\<close>
  processedClash :: bool  \<comment> \<open>an archive extracts a top-level entry named \<open>processed\<close>\<close>
  packError :: "string option"  \<comment> \<open>the packer (or an image pipeline of a merge) rejects\<close>
  archiveFound :: bool  \<comment> \<open>\<open>fs.existsSync(tempOutputPath)\<close> after packing\<close>
  finalSize :: nat
  thumb :: "string option"

record result =
  name :: string
  size :: nat
  pages :: "jsnum option"
  thumbnail :: "string option"

definition stripStamp :: "string \<Rightarrow> string" where
  \<comment> \<open>\<open>fileName.replace(/_\d{13}_[a-f0-9\-]{36}$/i, '')\<close>\<close>
  "stripStamp s =
     (let n = length s; t = drop (n - 51) s in
      if 51 \<le> n \<and> t ! 0 = CHR ''_''
         \<and> list_all (\<lambda>c. c \<in> set digit_chars) (take 13 (drop 1 t))
         \<and> t ! 14 = CHR ''_''
         \<and> list_all (\<lambda>c. lower_char c \<in> set ''abcdef0123456789-'') (drop 15 t)
      then take (n - 51) s else s)"

text \<open>
  \<open>Buffer.from(file.originalname, 'latin1').toString('utf8')\<close>: the code units of the
  uploaded name are taken as bytes and read as UTF-8. The decoded name is kept as its
  UTF-8 bytes, so decoding leaves well-formed input as it is and puts \<open>U+FFFD\<close> (the bytes
  \<open>EF BF BD\<close>) for every ill-formed piece, one per maximal ill-formed prefix. \<open>needed\<close>
  counts the continuation bytes still expected, \<open>lower\<close> and \<open>upper\<close> bound the next one,
  and \<open>pending\<close> holds the bytes of the character read so far. The later steps look at
  ASCII characters only (\<open>.\<close>, \<open>/\<close>, \<open>_\<close>, digits and letters), which mean the same in the
  bytes as in the string.
\<close>

definition replacement :: string where
  "replacement = [CHR 0xEF, CHR 0xBF, CHR 0xBD]"

fun utf8_scan :: "nat \<Rightarrow> nat \<Rightarrow> nat \<Rightarrow> string \<Rightarrow> string \<Rightarrow> string" where
  "utf8_scan needed lower upper pending [] = (if needed = 0 then [] else replacement)"
| "utf8_scan needed lower upper pending (b # bs) =
     (if needed = 0 then
        (if (of_char b :: nat) \<le> 0x7F then b # utf8_scan 0 0x80 0xBF [] bs
         else if 0xC2 \<le> (of_char b :: nat) \<and> (of_char b :: nat) \<le> 0xDF
           then utf8_scan 1 0x80 0xBF [b] bs
         else if 0xE0 \<le> (of_char b :: nat) \<and> (of_char b :: nat) \<le> 0xEF
           then utf8_scan 2 (if (of_char b :: nat) = 0xE0 then 0xA0 else 0x80)
                  (if (of_char b :: nat) = 0xED then 0x9F else 0xBF) [b] bs
         else if 0xF0 \<le> (of_char b :: nat) \<and> (of_char b :: nat) \<le> 0xF4
           then utf8_scan 3 (if (of_char b :: nat) = 0xF0 then 0x90 else 0x80)
                  (if (of_char b :: nat) = 0xF4 then 0x8F else 0xBF) [b] bs
         else replacement @ utf8_scan 0 0x80 0xBF [] bs)
      else if lower \<le> (of_char b :: nat) \<and> (of_char b :: nat) \<le> upper then
        (if needed = 1 then pending @ [b] @ utf8_scan 0 0x80 0xBF [] bs
         else utf8_scan (needed - 1) 0x80 0xBF (pending @ [b]) bs)
      else replacement @ utf8_scan 0 0x80 0xBF [] (b # bs))"

definition decodeName :: "string \<Rightarrow> string" where
  "decodeName uploaded = utf8_scan 0 0x80 0xBF [] uploaded"

definition resolvePages :: "request \<Rightarrow> bool \<Rightarrow> upload \<Rightarrow> tool_env \<Rightarrow> string + page_outcome" where
  \<comment> \<open>the branch on \<open>fileIsPdf\<close>, after the external tool has run\<close>
  "resolvePages req sharp file env =
     (if isPdf (decodeName (originalname file))
      then convert_document req sharp (decodeName (originalname file)) (pageCount env) (listing env)
      else convert_archive req sharp (processedClash env) (listing env))"

definition processConvertTask ::
  "request \<Rightarrow> bool \<Rightarrow> upload \<Rightarrow> tool_env \<Rightarrow> string + (result \<times> string list)" where
  \<comment> \<open>the Result, with the renumbered page files that went into the output; the message
      of the missing archive also names the temporary file, which is left out here\<close>
  "processConvertTask req sharp file env =
     (let fileName = stripStamp (parse_name (decodeName (originalname file))) in
      case toolError env of
        Some e \<Rightarrow> Inl e
      | None \<Rightarrow>
          (case resolvePages req sharp file env of
             Inl e \<Rightarrow> Inl e
           | Inr out \<Rightarrow>
               (case packError env of
                  Some e \<Rightarrow> Inl e
                | None \<Rightarrow>
                    if safeFormat req \<noteq> ''folder'' \<and> \<not> archiveFound env
                    then Inl ''Archive generation failed''
                    else Inr (\<lparr> name = outputFileName fileName (safeFormat req),
                                size = finalSize env,
                                pages = effective out,
                                thumbnail = thumb env \<rparr>,
                              finalPages out))))"

definition processMergeTask ::
  "request \<Rightarrow> upload list \<Rightarrow> string \<Rightarrow> tool_env \<Rightarrow> string + result" where
  "processMergeTask req taskFiles baseName env =
     (case packError env of
        Some e \<Rightarrow> Inl e
      | None \<Rightarrow>
          Inr \<lparr> name = outputFileName baseName (safeFormat req),
                size = finalSize env,
                pages = Some (Num (int (length taskFiles))),
                thumbnail = thumb env \<rparr>)"

section \<open>Grouping the upload into tasks\<close>

datatype task = MERGE "upload list" string | CONVERT upload

fun task_files :: "task \<Rightarrow> upload list" where
  "task_files (MERGE fs n) = fs"
| "task_files (CONVERT f) = [f]"

definition isImageFile :: "upload \<Rightarrow> bool" where
  \<comment> \<open>\<open>/\.(jpg|jpeg|png|tif|tiff|bmp|webp)$/i.test(f.originalname)\<close>\<close>
  "isImageFile f =
     list_ex (\<lambda>e. endsWith (toLowerCase (originalname f)) (CHR ''.'' # e))
       [''jpg'', ''jpeg'', ''png'', ''tif'', ''tiff'', ''bmp'', ''webp'']"

fun splitOn :: "char \<Rightarrow> string \<Rightarrow> string list" where
  \<comment> \<open>\<open>s.split(sep)\<close> for a one-character separator\<close>
  "splitOn sep [] = [[]]"
| "splitOn sep (c # cs) =
     (if c = sep then [] # splitOn sep cs
      else (case splitOn sep cs of [] \<Rightarrow> [[c]] | p # ps \<Rightarrow> (c # p) # ps))"

definition parts :: "upload \<Rightarrow> string list" where
  \<comment> \<open>\<open>file.originalname.replace(/\\/g, '/').split('/')\<close>\<close>
  "parts file = splitOn (CHR ''/'') (map (\<lambda>c. if c = CHR 0x5C then CHR ''/'' else c) (originalname file))"

text \<open>
  \<open>groups\<close> is a plain object used as a dictionary: an association list in insertion
  order. A folder named like a property that every object inherits is found by
  \<open>groups[rootDir]\<close> although it was never stored, so no list is created and \<open>push\<close>
  throws.
\<close>

definition prototypeKeys :: "string list" where
  "prototypeKeys =
     [''constructor'', ''__proto__'', ''hasOwnProperty'', ''isPrototypeOf'',
      ''propertyIsEnumerable'', ''toLocaleString'', ''toString'', ''valueOf'',
      ''__defineGetter__'', ''__defineSetter__'', ''__lookupGetter__'', ''__lookupSetter__'']"

type_synonym groups = "(string \<times> upload list) list"

definition pushTo :: "string \<Rightarrow> upload \<Rightarrow> groups \<Rightarrow> groups" where
  "pushTo rootDir file g = map (\<lambda>(k, v). if k = rootDir then (k, v @ [file]) else (k, v)) g"

fun groupFiles :: "upload list \<Rightarrow> groups \<Rightarrow> upload list \<Rightarrow> string + (groups \<times> upload list)" where
  "groupFiles [] g rootFiles = Inr (g, rootFiles)"
| "groupFiles (file # files) g rootFiles =
     (if length (parts file) > 1 then
        (let rootDir = hd (parts file) in
         case map_of g rootDir of
           Some dirFiles \<Rightarrow> groupFiles files (pushTo rootDir file g) rootFiles
         | None \<Rightarrow>
             if rootDir \<in> set prototypeKeys
             then Inl ''groups[rootDir].push is not a function''
             else groupFiles files (g @ [(rootDir, [file])]) rootFiles)
      else groupFiles files g (rootFiles @ [file]))"

definition isArrayIndex :: "string \<Rightarrow> bool" where
  \<comment> \<open>a key that is the canonical decimal form of an integer below \<open>2^32 - 1\<close>\<close>
  "isArrayIndex k =
     (k \<noteq> [] \<and> list_all (\<lambda>c. c \<in> set digit_chars) k \<and> (k = ''0'' \<or> hd k \<noteq> CHR ''0'')
      \<and> the (readDigits 10 k None) < 2 ^ 32 - 1)"

definition Object_entries :: "groups \<Rightarrow> groups" where
  \<comment> \<open>integer-like keys first, ascending; then the other keys as they were inserted\<close>
  "Object_entries g =
     sort_key (\<lambda>(k, v). the (readDigits 10 k None)) (filter (\<lambda>(k, v). isArrayIndex k) g)
     @ filter (\<lambda>(k, v). \<not> isArrayIndex k) g"

definition rootTask :: "upload list \<Rightarrow> task list" where
  "rootTask rootImages =
     (if length rootImages > 0 then
        [MERGE rootImages
           (if length rootImages = 1 then parse_name (originalname (hd rootImages))
            else parse_name (originalname (hd rootImages)) @ ''_set'')]
      else [])"

definition folderTask :: "string \<times> upload list \<Rightarrow> task list" where
  "folderTask entry =
     (case entry of (dirName, dirFiles) \<Rightarrow>
        (let images = filter isImageFile dirFiles in
         if length images > 0 then [MERGE images dirName] else []))"

definition classify :: "upload list \<Rightarrow> string + task list" where
  "classify files =
     (case groupFiles files [] [] of
        Inl e \<Rightarrow> Inl e
      | Inr (g, rootFiles) \<Rightarrow>
          Inr (rootTask (filter isImageFile rootFiles)
               @ concat (map folderTask (Object_entries g))
               @ map CONVERT (filter (\<lambda>f. \<not> isImageFile f) rootFiles)))"

text \<open>The tasks a file belongs to.\<close>

definition owners :: "task list \<Rightarrow> upload \<Rightarrow> task list" where
  "owners tasks f = filter (\<lambda>t. f \<in> set (task_files t)) tasks"

section \<open>The task loop and the error handler\<close>

text \<open>
  The part of the disk the route touches is the set of paths that exist; the log keeps
  the order of what the route does. \<open>proc\<close> gives what the body of a task function comes
  to before its own cleanup, the \<open>fs.rmSync(tempDir)\<close> and the unlinking of its uploads
  that precede \<open>return\<close>: the message of the error it throws, or its Result. \<open>tempDirOf\<close>
  names the temporary directory a task makes for itself. The cleanup itself is part of
  \<open>runTask\<close>; in a CONVERT task the unlinking is unguarded and throws when the upload is
  gone, after the temporary directory has been removed.
\<close>

datatype response = Ok200 "result list" | Error500 string | BadRequest400 string

datatype event = Started nat | Mkdir string | Rm string | Send response

record world =
  existing :: "string set"
  log :: "event list"

definition mkdir :: "string \<Rightarrow> world \<Rightarrow> world" where
  "mkdir p w = w\<lparr> existing := insert p (existing w), log := log w @ [Mkdir p] \<rparr>"

definition rm :: "string \<Rightarrow> world \<Rightarrow> world" where
  "rm p w = w\<lparr> existing := existing w - {p}, log := log w @ [Rm p] \<rparr>"

definition send :: "response \<Rightarrow> world \<Rightarrow> world" where
  "send r w = w\<lparr> log := log w @ [Send r] \<rparr>"

definition unlinkExisting :: "upload list \<Rightarrow> world \<Rightarrow> world" where
  \<comment> \<open>\<open>fs.forEach(f => { if (fs.existsSync(f.path)) fs.unlinkSync(f.path); })\<close>\<close>
  "unlinkExisting fs w = foldl (\<lambda>w f. if path f \<in> existing w then rm (path f) w else w) w fs"

definition runTask ::
  "(task \<Rightarrow> string + result) \<Rightarrow> (nat \<Rightarrow> string) \<Rightarrow> world \<Rightarrow> nat \<Rightarrow> task \<Rightarrow> (string + result) \<times> world" where
  "runTask proc tempDirOf w idx t =
     (let tempDir = tempDirOf idx;
          w1 = mkdir tempDir (w\<lparr> log := log w @ [Started idx] \<rparr>)
      in case proc t of
           Inl e \<Rightarrow> (Inl e, w1)
         | Inr r \<Rightarrow>
             (case t of
                MERGE taskFiles baseName \<Rightarrow> (Inr r, unlinkExisting taskFiles (rm tempDir w1))
              | CONVERT file \<Rightarrow>
                  (let w2 = rm tempDir w1 in
                   if path file \<in> existing w2 then (Inr r, rm (path file) w2)
                   else (Inl ''ENOENT: no such file or directory, unlink'', w2))))"

fun processTasks ::
  "(task \<Rightarrow> string + result) \<Rightarrow> (nat \<Rightarrow> string) \<Rightarrow> world \<Rightarrow> nat \<Rightarrow> task list \<Rightarrow> result list
     \<Rightarrow> (string + result list) \<times> world" where
  "processTasks proc tempDirOf w idx [] results = (Inr results, w)"
| "processTasks proc tempDirOf w idx (t # ts) results =
     (case runTask proc tempDirOf w idx t of
        (Inl e, w') \<Rightarrow> (Inl e, w')
      | (Inr r, w') \<Rightarrow> processTasks proc tempDirOf w' (idx + 1) ts (results @ [r]))"

definition catchHandler :: "upload list \<Rightarrow> string \<Rightarrow> world \<Rightarrow> world" where
  \<comment> \<open>\<open>res.status(500).send('Conversion error: ' + errorMsg)\<close>, then the sweep of \<open>req.files\<close>\<close>
  "catchHandler files e w = unlinkExisting files (send (Error500 (''Conversion error: '' @ e)) w)"

text \<open>
  \<open>convertRoute\<close> is the route for a request whose first progress event goes through;
  \<open>postConvert\<close> below puts that event in front.
\<close>

definition convertRoute ::
  "(task \<Rightarrow> string + result) \<Rightarrow> (nat \<Rightarrow> string) \<Rightarrow> upload list \<Rightarrow> world \<Rightarrow> world" where
  "convertRoute proc tempDirOf files w =
     (if files = [] then send (BadRequest400 ''No files uploaded.'') w
      else
        (case classify files of
           Inl e \<Rightarrow> catchHandler files e w
         | Inr tasks \<Rightarrow>
             (case processTasks proc tempDirOf w 0 tasks [] of
                (Inl e, w') \<Rightarrow> catchHandler files e w'
              | (Inr results, w') \<Rightarrow> send (Ok200 results) w')))"

text \<open>
  \<open>sendProgress\<close> looks \<open>requestId\<close> up in \<open>activeConnections\<close>, a plain object. An id
  without a listener is dropped (\<open>Inr False\<close>), unless it names a property that every object
  inherits: then the lookup finds that property and the call of its \<open>write\<close> throws.
  \<open>activeConnections\<close> lists the ids that have a listener of their own; it is taken as
  unchanged while the request runs, so that of all progress events only the first one,
  sent inside the \<open>try\<close> before the grouping, can throw this way.
\<close>

definition sendProgress :: "string list \<Rightarrow> string option \<Rightarrow> string + bool" where
  "sendProgress activeConnections rid =
     (let key = (case rid of None \<Rightarrow> ''undefined'' | Some r \<Rightarrow> r) in
      if key \<in> set activeConnections then Inr True
      else if key \<in> set prototypeKeys
        then Inl ''activeConnections[requestId].write is not a function''
      else Inr False)"

definition postConvert ::
  "string list \<Rightarrow> request \<Rightarrow> (task \<Rightarrow> string + result) \<Rightarrow> (nat \<Rightarrow> string) \<Rightarrow> upload list \<Rightarrow> world
     \<Rightarrow> world" where
  "postConvert activeConnections req proc tempDirOf files w =
     (if files = [] then send (BadRequest400 ''No files uploaded.'') w
      else
        (case sendProgress activeConnections (requestId req) of
           Inl e \<Rightarrow> catchHandler files e w
         | Inr delivered \<Rightarrow> convertRoute proc tempDirOf files w))"

definition responses :: "world \<Rightarrow> response list" where
  "responses w = concat (map (\<lambda>ev. case ev of Send r \<Rightarrow> [r] | _ \<Rightarrow> []) (log w))"

definition started :: "world \<Rightarrow> nat list" where
  "started w = concat (map (\<lambda>ev. case ev of Started i \<Rightarrow> [i] | _ \<Rightarrow> []) (log w))"

section \<open>Sample inputs\<close>

text \<open>Concrete requests and tool behaviours, used where a statement is evaluated.\<close>

definition sample_request :: request where
  "sample_request =
     \<lparr> dpi = Some ''300'', maxWidth = None, colorMode = Some ''color'', pageStart = None,
       pageEnd = None, format = Some ''cbz'', compression = Some ''80'',
       archiveCompression = Some ''5'', imgFormat = Some ''jpeg'', rotation = Some ''0'',
       splitDouble = Some ''no'', readingDir = Some ''ltr'', requestId = Some ''r1'' \<rparr>"

definition original_request :: request where
  "original_request =
     sample_request\<lparr> dpi := Some ''original'', format := Some ''cbr'',
       archiveCompression := Some ''9'', rotation := Some ''90'' \<rparr>"

definition ranged_request :: request where
  \<comment> \<open>pages 3 to 7\<close>
  "ranged_request = sample_request\<lparr> pageStart := Some ''3'', pageEnd := Some ''7'' \<rparr>"

definition inverted_request :: request where
  \<comment> \<open>first page 8, last page 3\<close>
  "inverted_request = sample_request\<lparr> pageStart := Some ''8'', pageEnd := Some ''3'' \<rparr>"

definition split_request :: request where
  "split_request = sample_request\<lparr> splitDouble := Some ''auto'', readingDir := Some ''rtl'' \<rparr>"

definition wide_page :: image_file where
  "wide_page =
     \<lparr> fname = ''page-1.jpg'', bytes = 1000, decoded = Inr (2000, 1000), extractOk = True \<rparr>"



definition small_page :: image_file where
  "small_page =
     \<lparr> fname = ''/tmp/in_temp_1/a.png'', bytes = 500, decoded = Inr (800, 1200), extractOk = True \<rparr>"

definition empty_page :: image_file where
  \<comment> \<open>a file of length 0\<close>
  "empty_page =
     \<lparr> fname = ''/tmp/in_temp_1/b.png'', bytes = 0,
       decoded = Inl ''Input buffer contains unsupported image format'', extractOk = False \<rparr>"

definition last_page :: image_file where
  "last_page =
     \<lparr> fname = ''/tmp/in_temp_1/c.png'', bytes = 500, decoded = Inr (800, 1200), extractOk = True \<rparr>"

definition zip_request :: request where
  \<comment> \<open>a container format the route does not know\<close>
  "zip_request = sample_request\<lparr> format := Some ''zip'' \<rparr>"

definition book :: upload where
  "book = \<lparr> originalname = ''book.pdf'', path = ''upload/1'' \<rparr>"

definition one_wide_page :: tool_env where
  \<comment> \<open>a document of one page, rendered as one landscape image\<close>
  "one_wide_page =
     \<lparr> pageCount = Some 1, toolError = None, listing = [wide_page], processedClash = False,
       packError = None, archiveFound = True, finalSize = 1000, thumb = None \<rparr>"

definition folder_page :: upload where
  "folder_page = \<lparr> originalname = ''chapter1/page01.jpg'', path = ''upload/f1'' \<rparr>"

definition folder_note :: upload where
  "folder_note = \<lparr> originalname = ''chapter1/notes.txt'', path = ''upload/f2'' \<rparr>"

definition root_cover :: upload where
  "root_cover = \<lparr> originalname = ''cover.PNG'', path = ''upload/f3'' \<rparr>"

definition root_book :: upload where
  "root_book = \<lparr> originalname = ''book.pdf'', path = ''upload/f4'' \<rparr>"

definition doc_a :: upload where
  "doc_a = \<lparr> originalname = ''a.pdf'', path = ''upload/a'' \<rparr>"

definition doc_b :: upload where
  "doc_b = \<lparr> originalname = ''b.pdf'', path = ''upload/b'' \<rparr>"

definition doc_c :: upload where
  "doc_c = \<lparr> originalname = ''c.pdf'', path = ''upload/c'' \<rparr>"

definition no_pages :: tool_env where
  \<comment> \<open>the rasterizer leaves no image behind\<close>
  "no_pages = one_wide_page\<lparr> listing := [] \<rparr>"

definition sample_proc :: "task \<Rightarrow> string + result" where
  \<comment> \<open>\<open>a.pdf\<close> yields no image; everything else converts\<close>
  "sample_proc t =
     (case t of
        CONVERT f \<Rightarrow>
          (case processConvertTask sample_request True f (if f = doc_a then no_pages else one_wide_page) of
             Inl e \<Rightarrow> Inl e
           | Inr (r, ps) \<Rightarrow> Inr r)
      | MERGE fs baseName \<Rightarrow> processMergeTask sample_request fs baseName one_wide_page)"

definition sample_tempDirOf :: "nat \<Rightarrow> string" where
  "sample_tempDirOf idx = ''temp/task_'' @ toString_nat idx"

definition staging :: "upload list \<Rightarrow> world" where
  \<comment> \<open>the disk when the route starts: the staged uploads, nothing logged\<close>
  "staging files = \<lparr> existing = path ` set files, log = [] \<rparr>"

definition result_b :: result where
  "result_b = \<lparr> name = ''b.cbz'', size = 1000, pages = Some (Num 1), thumbnail = None \<rparr>"

section \<open>The double-page split in the words of the specification\<close>

text \<open>
  What page \<open>i\<close> (counted from 0) contributes to the final sequence: its two halves, the
  right one first when reading right to left, if the page can be read, its width exceeds
  1.2 times its height and the halves can be cut out and written; otherwise the page
  itself.
\<close>

definition halves_or_page :: "bool \<Rightarrow> nat \<Rightarrow> image_file \<Rightarrow> string list" where
  "halves_or_page rtl i f =
     (case decoded f of
        Inl e \<Rightarrow> [fname f]
      | Inr (w, h) \<Rightarrow>
          if 0 < w \<and> 0 < h \<and> 6 * h < 5 * w \<and> extractOk f
          then (if rtl then [rightName i, leftName i] else [leftName i, rightName i])
          else [fname f])"

section \<open>Evaluation rules\<close>

lemma replicate_numeral [simp]: "replicate (numeral k) x = x # replicate (pred_numeral k) x"
  by (simp add: numeral_eq_Suc)

lemmas js_eval = parseInt_def isWhite_def startsWith_def digitVal_def lower_char_def
  toString_nat.simps digit_chars_def padStart_def toLowerCase_def endsWith_def

lemmas path_eval = basename_def extname_def parse_name_def stripStamp_def

text \<open>Decoding leaves an ASCII name as it is, and replaces a byte that is no UTF-8.\<close>

lemma utf8_scan_ascii:
  "list_all (\<lambda>c. (of_char c :: nat) \<le> 0x7F) s \<Longrightarrow> utf8_scan 0 0x80 0xBF [] s = s"
  by (induction s) simp_all

lemma decodeName_ascii:
  "list_all (\<lambda>c. (of_char c :: nat) \<le> 0x7F) s \<Longrightarrow> decodeName s = s"
  by (simp add: decodeName_def utf8_scan_ascii)

lemma decodeName_latin1_byte:
  "decodeName (''caf'' @ [CHR 0xE9] @ ''.pdf'') = ''caf'' @ [CHR 0xEF, CHR 0xBF, CHR 0xBD] @ ''.pdf''"
  by (simp add: decodeName_def replacement_def)

lemma decodeName_utf8_bytes:
  "decodeName (''caf'' @ [CHR 0xC3, CHR 0xA9] @ ''.pdf'') = ''caf'' @ [CHR 0xC3, CHR 0xA9] @ ''.pdf''"
  by (simp add: decodeName_def)

lemmas request_eval = isOriginal_def rotAngle_def maxW_def dpiVal_def compVal_def archCompVal_def
  safeImgFormat_def safeFormat_def allowedFormats_def pStart_def pEnd_def

section \<open>The output format does not influence page processing\<close>

lemma format_irrelevant:
  "isOriginal (req\<lparr>format := x\<rparr>) = isOriginal req"
  "rotAngle (req\<lparr>format := x\<rparr>) = rotAngle req"
  "safeImgFormat (req\<lparr>format := x\<rparr>) = safeImgFormat req"
  "pStart (req\<lparr>format := x\<rparr>) = pStart req"
  "pEnd (req\<lparr>format := x\<rparr>) n = pEnd req n"
  "isLtr (req\<lparr>format := x\<rparr>) = isLtr req"
  "splitDouble (req\<lparr>format := x\<rparr>) = splitDouble req"
  by (simp_all add: isOriginal_def rotAngle_def safeImgFormat_def pStart_def pEnd_def isLtr_def)

lemma format_irrelevant_range:
  "effStart (req\<lparr>format := x\<rparr>) = effStart req"
  "effEnd (req\<lparr>format := x\<rparr>) n = effEnd req n"
  "outExt (req\<lparr>format := x\<rparr>) = outExt req"
  "splitActive (req\<lparr>format := x\<rparr>) sharp = splitActive req sharp"
  "pdf_effectiveTotalPages (req\<lparr>format := x\<rparr>) tp = pdf_effectiveTotalPages req tp"
  "archive_effectiveTotalPages (req\<lparr>format := x\<rparr>) n = archive_effectiveTotalPages req n"
  by (simp_all only: effStart_def effEnd_def outExt_def splitActive_def pdf_effectiveTotalPages_def
        archive_effectiveTotalPages_def format_irrelevant)

lemma splitLoop_format:
  "splitLoop (req\<lparr>format := x\<rparr>) imgFiles n i acc = splitLoop req imgFiles n i acc"
proof (induction req imgFiles n i acc rule: splitLoop.induct)
  case (1 req imgFiles n i acc)
  show ?case
    using 1 by (subst (1 2) splitLoop.simps) (simp add: format_irrelevant Let_def)
qed

lemma archiveLoop_format:
  "archiveLoop (req\<lparr>format := x\<rparr>) sharp tot padding i k imgs = archiveLoop req sharp tot padding i k imgs"
  by (induction imgs arbitrary: i k)
     (simp_all only: archiveLoop.simps format_irrelevant format_irrelevant_range)

lemma convert_document_format:
  "convert_document (req\<lparr>format := x\<rparr>) sharp nm tp imgs = convert_document req sharp nm tp imgs"
  by (simp only: convert_document_def expandedFiles_def format_irrelevant_range splitLoop_format)

lemma convert_archive_format:
  "convert_archive (req\<lparr>format := x\<rparr>) sharp clash imgs = convert_archive req sharp clash imgs"
  by (simp only: convert_archive_def format_irrelevant_range archiveLoop_format)

lemma resolvePages_format:
  "resolvePages (req\<lparr>format := x\<rparr>) sharp file env = resolvePages req sharp file env"
  by (simp only: resolvePages_def convert_document_format convert_archive_format)

section \<open>Archive assembly: formats and levels\<close>

text \<open>
  C10. A requested container format outside \<open>cbz, cbt, cb7, cbr, pdf, rar4, folder\<close> (or no
  format at all) makes no task fail: \<open>safeFormat\<close> is \<open>cbz\<close> and the zip packer runs. A
  CONVERT task whose tools go through returns its Result, named \<open>base.cbz\<close>; a MERGE task
  whose packer goes through returns its Result, named \<open>base.cbz\<close>; whenever either task
  returns a Result its name is \<open>base.cbz\<close>; and both tasks end exactly as they do when
  \<open>cbz\<close> itself is requested.
\<close>

theorem unrecognized_format_falls_back:
  assumes "format req \<notin> Some ` set allowedFormats"
  shows "safeFormat req = ''cbz''
     \<and> outputFileName baseName (safeFormat req) = baseName @ ''.cbz''
     \<and> packer_convert req = SevenZip_zip (sevenZipLevel req)
     \<and> packer_merge req = SevenZip_zip (sevenZipLevel req)
     \<and> (toolError env = None \<and> resolvePages req sharp file env = Inr out
          \<and> packError env = None \<and> archiveFound env \<longrightarrow>
        processConvertTask req sharp file env =
          Inr (\<lparr> name = stripStamp (parse_name (decodeName (originalname file))) @ ''.cbz'',
                 size = finalSize env, pages = effective out, thumbnail = thumb env \<rparr>,
               finalPages out))
     \<and> (packError env = None \<longrightarrow>
        processMergeTask req taskFiles baseName env =
          Inr \<lparr> name = baseName @ ''.cbz'', size = finalSize env,
                pages = Some (Num (int (length taskFiles))), thumbnail = thumb env \<rparr>)
     \<and> (\<forall>r ps. processConvertTask req sharp file env = Inr (r, ps) \<longrightarrow>
          name r = stripStamp (parse_name (decodeName (originalname file))) @ ''.cbz'')
     \<and> (\<forall>r. processMergeTask req taskFiles baseName env = Inr r \<longrightarrow> name r = baseName @ ''.cbz'')
     \<and> processConvertTask req sharp file env
         = processConvertTask (req\<lparr>format := Some ''cbz''\<rparr>) sharp file env
     \<and> processMergeTask req taskFiles baseName env
         = processMergeTask (req\<lparr>format := Some ''cbz''\<rparr>) taskFiles baseName env"
proof -
  have sf: "safeFormat req = ''cbz''"
    using assms by (cases "format req") (auto simp: safeFormat_def)
  have sf': "safeFormat (req\<lparr>format := Some ''cbz''\<rparr>) = ''cbz''"
    by (simp add: safeFormat_def allowedFormats_def)
  have n: "outputFileName b (safeFormat req) = b @ ''.cbz''" for b
    by (simp add: sf outputFileName_def)
  have pc: "packer_convert req = SevenZip_zip (sevenZipLevel req)"
    by (simp add: packer_convert_def sf)
  have pm: "packer_merge req = SevenZip_zip (sevenZipLevel req)"
    by (simp add: packer_merge_def sf)
  have cs: "toolError env = None \<and> resolvePages req sharp file env = Inr out
          \<and> packError env = None \<and> archiveFound env \<longrightarrow>
        processConvertTask req sharp file env =
          Inr (\<lparr> name = stripStamp (parse_name (decodeName (originalname file))) @ ''.cbz'',
                 size = finalSize env, pages = effective out, thumbnail = thumb env \<rparr>,
               finalPages out)"
    by (simp add: processConvertTask_def n)
  have ms: "packError env = None \<longrightarrow>
        processMergeTask req taskFiles baseName env =
          Inr \<lparr> name = baseName @ ''.cbz'', size = finalSize env,
                pages = Some (Num (int (length taskFiles))), thumbnail = thumb env \<rparr>"
    by (simp add: processMergeTask_def n)
  have cn: "\<forall>r ps. processConvertTask req sharp file env = Inr (r, ps) \<longrightarrow>
          name r = stripStamp (parse_name (decodeName (originalname file))) @ ''.cbz''"
    by (auto simp: processConvertTask_def sf outputFileName_def Let_def
          split: option.splits sum.splits if_splits)
  have mn: "\<forall>r. processMergeTask req taskFiles baseName env = Inr r \<longrightarrow> name r = baseName @ ''.cbz''"
    by (auto simp: processMergeTask_def n split: option.splits)
  have c: "processConvertTask req sharp file env
         = processConvertTask (req\<lparr>format := Some ''cbz''\<rparr>) sharp file env"
    by (simp only: processConvertTask_def sf sf' resolvePages_format)
  have m: "processMergeTask req taskFiles baseName env
         = processMergeTask (req\<lparr>format := Some ''cbz''\<rparr>) taskFiles baseName env"
    by (simp only: processMergeTask_def sf sf')
  show ?thesis using sf n pc pm cs ms cn mn c m by blast
qed

lemma zip_request_unknown: "format zip_request \<notin> Some ` set allowedFormats"
  by (simp add: zip_request_def allowedFormats_def image_iff)

lemma book_name:
  "decodeName (originalname book) = ''book.pdf''"
  "stripStamp (parse_name ''book.pdf'') = ''book''"
  by (simp_all add: book_def decodeName_ascii path_eval)

lemma book_is_pdf: "isPdf ''book.pdf''"
  by (simp add: isPdf_def js_eval)

lemma zip_request_pages:
  "resolvePages zip_request True book one_wide_page
     = Inr \<lparr> finalPages = [''001.jpg''], effective = Some (Num 1) \<rparr>"
proof -
  have e: "pdf_effectiveTotalPages zip_request (Some (Suc 0)) = Some (Num 1)"
    by (simp add: pdf_effectiveTotalPages_def pStart_def pEnd_def zip_request_def sample_request_def)
  have x: "expandedFiles zip_request True [wide_page] (Some (Num 1)) = [''page-1.jpg'']"
    by (simp add: expandedFiles_def splitActive_def zip_request_def sample_request_def slice0_def
          wide_page_def)
  have r: "renumber [''page-1.jpg''] = [''001.jpg'']"
    by (simp add: renumber_def js_eval path_eval)
  show ?thesis
    by (simp add: resolvePages_def book_name book_is_pdf convert_document_def one_wide_page_def e x r)
qed

theorem unrecognized_format_falls_back_witness:
  "format zip_request \<notin> Some ` set allowedFormats
   \<and> safeFormat zip_request = ''cbz''
   \<and> packer_convert zip_request = SevenZip_zip (Num 5)
   \<and> processConvertTask zip_request True book one_wide_page
       = Inr (\<lparr> name = ''book.cbz'', size = 1000, pages = Some (Num 1), thumbnail = None \<rparr>,
              [''001.jpg''])
   \<and> processMergeTask zip_request [book] ''album'' one_wide_page
       = Inr \<lparr> name = ''album.cbz'', size = 1000, pages = Some (Num 1), thumbnail = None \<rparr>"
proof -
  have t: "toolError one_wide_page = None" "packError one_wide_page = None"
    "archiveFound one_wide_page" "finalSize one_wide_page = 1000" "thumb one_wide_page = None"
    by (simp_all add: one_wide_page_def)
  have l: "sevenZipLevel zip_request = Num 5"
    by (simp add: sevenZipLevel_def zip_request_def sample_request_def request_eval js_eval)
  show ?thesis
    using zip_request_unknown
      unrecognized_format_falls_back [OF zip_request_unknown, of "''album''" one_wide_page True book
        "\<lparr> finalPages = [''001.jpg''], effective = Some (Num 1) \<rparr>" "[book]"]
    by (simp add: t l zip_request_pages book_name)
qed

text \<open>
  The level table of \<open>processConvertTask\<close> for cbr and rar4, outside original mode:
  logical 0, 1, 3, 5, 7, 9 give native 0, 1, 2, 3, 4, 5, anything else (also \<open>NaN\<close>) gives 3.
\<close>

lemma rarComp_convert_breakpoints:
  assumes "\<not> isOriginal req"
  shows "rarComp_convert req =
     (case map_of [(Num 0, 0), (Num 1, 1), (Num 3, 2), (Num 5, 3), (Num 7, 4), (Num 9, 5)]
             (archCompVal req) of
        Some native \<Rightarrow> native
      | None \<Rightarrow> 3)"
  using assms by (simp add: rarComp_convert_def)

text \<open>
  C8. The breakpoints hold for CONVERT tasks only. \<open>processMergeTask\<close> knows two native
  levels: for a cbr container at logical level 9, outside original mode, it runs
  \<open>rar -m3\<close>, where the table and \<open>processConvertTask\<close> give \<open>-m5\<close>.
\<close>

theorem merge_rar_level_misses_breakpoints:
  "packer_merge (sample_request\<lparr>format := Some ''cbr'', archiveCompression := Some ''9''\<rparr>) = Rar 3
   \<and> packer_convert (sample_request\<lparr>format := Some ''cbr'', archiveCompression := Some ''9''\<rparr>) = Rar 5"
  by (simp add: packer_merge_def packer_convert_def rarComp_merge_def rarComp_convert_def
        sample_request_def request_eval js_eval)

text \<open>
  C5. In original mode (\<open>dpi = 'original'\<close>) every packer that takes a level gets level 0,
  for CONVERT and for MERGE tasks and whatever \<open>archiveCompression\<close> says. The pages of a
  document are then produced by \<open>pdfimages -all\<close> with only the page range as options,
  followed by a rotation when an angle is set; the colour mode, image format, quality
  and maximal width of the request change nothing.
\<close>

theorem original_mode_store_and_passthrough:
  assumes "isOriginal req" and "safeFormat req \<in> set [''cbz'', ''cb7'', ''cbr'', ''rar4'']"
  shows "packer_level (packer_convert req) = Some (Num 0)
     \<and> packer_level (packer_merge req) = Some (Num 0)
     \<and> pdf_steps req sharp filePath outputPrefix =
         RunTool pdfimages ([''-all''] @ range_args req @ [filePath, outputPrefix])
           # (if rotAngle req \<noteq> Num 0 \<and> sharp then [RotatePages (rotAngle req)] else [])
     \<and> pdf_steps (req\<lparr>colorMode := c, imgFormat := f, compression := q, maxWidth := m\<rparr>)
           sharp filePath outputPrefix
         = pdf_steps req sharp filePath outputPrefix"
proof -
  have l1: "packer_level (packer_convert req) = Some (Num 0)"
    using assms by (auto simp: packer_convert_def sevenZipLevel_def rarComp_convert_def)
  have l2: "packer_level (packer_merge req) = Some (Num 0)"
    using assms by (auto simp: packer_merge_def sevenZipLevel_def rarComp_merge_def)
  have s1: "pdf_steps req sharp filePath outputPrefix =
         RunTool pdfimages ([''-all''] @ range_args req @ [filePath, outputPrefix])
           # (if rotAngle req \<noteq> Num 0 \<and> sharp then [RotatePages (rotAngle req)] else [])"
    using assms(1) by (simp add: pdf_steps_def pdf_tool_def pdf_args_def splitActive_def)
  have s2: "pdf_steps (req\<lparr>colorMode := c, imgFormat := f, compression := q, maxWidth := m\<rparr>)
           sharp filePath outputPrefix
         = pdf_steps req sharp filePath outputPrefix"
    using assms(1)
    by (simp add: pdf_steps_def pdf_tool_def pdf_args_def splitActive_def isOriginal_def
          range_args_def rotAngle_def)
  show ?thesis using l1 l2 s1 s2 by blast
qed

theorem original_mode_store_and_passthrough_witness:
  "isOriginal original_request
   \<and> safeFormat original_request \<in> set [''cbz'', ''cb7'', ''cbr'', ''rar4'']
   \<and> packer_level (packer_convert original_request) = Some (Num 0)
   \<and> packer_level (packer_merge original_request) = Some (Num 0)
   \<and> pdf_steps original_request True ''in.pdf'' ''tmp/page''
       = [RunTool pdfimages [''-all'', ''in.pdf'', ''tmp/page''], RotatePages (Num 90)]"
proof -
  have h1: "isOriginal original_request"
    by (simp add: isOriginal_def original_request_def)
  have h2: "safeFormat original_request \<in> set [''cbz'', ''cb7'', ''cbr'', ''rar4'']"
    by (simp add: safeFormat_def allowedFormats_def original_request_def)
  have r: "range_args original_request = []"
    by (simp add: range_args_def original_request_def sample_request_def)
  have a: "rotAngle original_request = Num 90"
    by (simp add: rotAngle_def original_request_def js_eval)
  show ?thesis
    using h1 h2 original_mode_store_and_passthrough [OF h1 h2, of True "''in.pdf''" "''tmp/page''"]
    by (simp add: r a)
qed

section \<open>Effective page count\<close>

text \<open>
  C2, as the code has it. For a source of \<open>T\<close> pages and a range whose bounds are numbers
  \<open>s\<close> and \<open>e\<close> (1 and \<open>T\<close> when the request leaves them out), the archive branch
  counts \<open>min T e - max 1 s + 1\<close> pages, or 0 when that is negative. The document branch
  counts the same number when \<open>max 1 s \<le> min T e\<close>; for an empty range it keeps \<open>T\<close>.
\<close>

theorem effective_page_count:
  assumes "pStart req = Num s" and "pEnd req T = Num e"
  shows "archive_effectiveTotalPages req T = Num (max 0 (min (int T) e - max 1 s + 1))
     \<and> pdf_effectiveTotalPages req (Some T) =
         Some (Num (if max 1 s \<le> min (int T) e then min (int T) e - max 1 s + 1 else int T))"
proof -
  have a: "archive_effectiveTotalPages req T = Num (max 0 (min (int T) e - max 1 s + 1))"
    by (simp add: archive_effectiveTotalPages_def effStart_def effEnd_def assms)
  have d: "pdf_effectiveTotalPages req (Some T) =
         Some (Num (if max 1 s \<le> min (int T) e then min (int T) e - max 1 s + 1 else int T))"
    by (cases "T = 0") (auto simp: pdf_effectiveTotalPages_def assms Let_def)
  show ?thesis using a d by blast
qed

lemma ranged_request_range: "pStart ranged_request = Num 3" "pEnd ranged_request 10 = Num 7"
  by (simp_all add: ranged_request_def pStart_def pEnd_def js_eval)

theorem effective_page_count_witness:
  "pStart ranged_request = Num 3 \<and> pEnd ranged_request 10 = Num 7
   \<and> archive_effectiveTotalPages ranged_request 10 = Num 5
   \<and> pdf_effectiveTotalPages ranged_request (Some 10) = Some (Num 5)"
  using ranged_request_range effective_page_count [OF ranged_request_range]
  by simp

lemma inverted_request_range: "pStart inverted_request = Num 8" "pEnd inverted_request 10 = Num 3"
  by (simp_all add: inverted_request_def pStart_def pEnd_def js_eval)

text \<open>
  C2 as stated fails on the document branch: ten pages with the range 8 to 3 give an
  effective count of 10, not 0.
\<close>

theorem inverted_range_document_counterexample:
  "pStart inverted_request = Num 8 \<and> pEnd inverted_request 10 = Num 3
   \<and> pdf_effectiveTotalPages inverted_request (Some 10) = Some (Num 10)
   \<and> pdf_effectiveTotalPages inverted_request (Some 10)
       \<noteq> Some (Num (max 0 (min 10 3 - max 1 8 + 1)))"
  by (simp add: inverted_request_range pdf_effectiveTotalPages_def)

section \<open>Digits\<close>

lemma toString_nat_nonempty: "toString_nat n \<noteq> []"
  by (subst toString_nat.simps) simp

lemma digit_chars_nth: "k < 10 \<Longrightarrow> digit_chars ! k \<in> set digit_chars"
  by (rule nth_mem) (simp add: digit_chars_def)

lemma toString_nat_digits: "set (toString_nat n) \<subseteq> set digit_chars"
proof (induction n rule: toString_nat.induct)
  case (1 n)
  show ?case
  proof (cases "n < 10")
    case True
    then show ?thesis by (subst toString_nat.simps) (simp add: digit_chars_nth)
  next
    case False
    then have "set (toString_nat (n div 10)) \<subseteq> set digit_chars" using 1 by simp
    moreover have "digit_chars ! (n mod 10) \<in> set digit_chars" by (simp add: digit_chars_nth)
    ultimately show ?thesis using False by (subst toString_nat.simps) simp
  qed
qed

lemma length_toString_nat:
  "length (toString_nat n) = (if n < 10 then 1 else Suc (length (toString_nat (n div 10))))"
  by (subst toString_nat.simps) simp

lemma length_toString_nat_mono: "m \<le> n \<Longrightarrow> length (toString_nat m) \<le> length (toString_nat n)"
proof (induction n arbitrary: m rule: toString_nat.induct)
  case (1 n)
  show ?case
  proof (cases "n < 10")
    case True
    then have "m < 10" using "1.prems" by simp
    then show ?thesis using True by (simp add: length_toString_nat)
  next
    case False
    show ?thesis
    proof (cases "m < 10")
      case True
      then show ?thesis using False by (simp add: length_toString_nat)
    next
      case m: False
      have "m div 10 \<le> n div 10" using "1.prems" by (simp add: div_le_mono)
      then have "length (toString_nat (m div 10)) \<le> length (toString_nat (n div 10))"
        using 1 False by simp
      then show ?thesis using False m by (simp add: length_toString_nat)
    qed
  qed
qed


section \<open>Extensions\<close>

lemma basename_no_slash: "CHR ''/'' \<notin> set p \<Longrightarrow> basename p = p"
proof -
  assume a: "CHR ''/'' \<notin> set p"
  have d: "dropWhile (\<lambda>c. c = CHR ''/'') (rev p) = rev p"
    using a by (cases "rev p") auto
  have t: "takeWhile (\<lambda>c. c \<noteq> CHR ''/'') (rev p) = rev p"
    using a by (auto simp: takeWhile_eq_all_conv)
  show ?thesis by (simp add: basename_def d t)
qed

lemma basename_slash_free: "CHR ''/'' \<notin> set (basename p)"
proof -
  have "set (takeWhile (\<lambda>c. c \<noteq> CHR ''/'') xs) \<subseteq> {c. c \<noteq> CHR ''/''}" for xs
    by (auto dest: set_takeWhileD)
  then show ?thesis by (auto simp: basename_def Let_def)
qed

lemma extname_shape:
  "extname p = [] \<or> (\<exists>r. extname p = CHR ''.'' # r \<and> CHR ''.'' \<notin> set r \<and> CHR ''/'' \<notin> set r)"
proof -
  let ?r = "rev (takeWhile (\<lambda>c. c \<noteq> CHR ''.'') (rev (basename p)))"
  have 1: "CHR ''.'' \<notin> set ?r" by (auto dest: set_takeWhileD)
  have 2: "CHR ''/'' \<notin> set ?r"
    using basename_slash_free [of p] by (auto dest: set_takeWhileD)
  have "extname p = [] \<or> extname p = CHR ''.'' # ?r"
    by (simp add: extname_def Let_def)
  then show ?thesis using 1 2 by blast
qed

lemma extname_digits_ext:
  assumes d: "d \<noteq> []" "set d \<subseteq> set digit_chars"
    and e: "e = [] \<or> (\<exists>r. e = CHR ''.'' # r \<and> CHR ''.'' \<notin> set r \<and> CHR ''/'' \<notin> set r)"
  shows "extname (d @ e) = e"
proof -
  have nd: "CHR ''.'' \<notin> set d" "CHR ''/'' \<notin> set d"
    using d(2) by (auto simp: digit_chars_def)
  from e show ?thesis
  proof
    assume "e = []"
    then show ?thesis using nd by (simp add: extname_def basename_no_slash)
  next
    assume "\<exists>r. e = CHR ''.'' # r \<and> CHR ''.'' \<notin> set r \<and> CHR ''/'' \<notin> set r"
    then obtain r where r: "e = CHR ''.'' # r" "CHR ''.'' \<notin> set r" "CHR ''/'' \<notin> set r" by blast
    have b: "basename (d @ CHR ''.'' # r) = d @ CHR ''.'' # r"
      using nd r by (intro basename_no_slash) auto
    have t: "takeWhile (\<lambda>c. c \<noteq> CHR ''.'') (rev r @ CHR ''.'' # rev d) = rev r"
      using r by (simp add: takeWhile_append)
    have ne: "d @ CHR ''.'' # r \<noteq> ''..''"
      using d nd by (cases d) auto
    show ?thesis
      using d(1) ne by (simp add: extname_def b t Let_def r(1))
  qed
qed

section \<open>Renumbering\<close>

lemma length_renumberFrom: "length (renumberFrom padding idx fs) = length fs"
  by (induction fs arbitrary: idx) simp_all

lemma renumberFrom_nth:
  "i < length fs \<Longrightarrow>
   renumberFrom padding idx fs ! i =
     padStart (max 3 padding) (CHR ''0'') (toString_nat (idx + i + 1)) @ extname (fs ! i)"
proof (induction fs arbitrary: idx i)
  case Nil
  then show ?case by simp
next
  case (Cons f fs)
  show ?case
  proof (cases i)
    case 0
    then show ?thesis by simp
  next
    case (Suc j)
    then have "j < length fs" using Cons.prems by simp
    from Cons.IH [OF this, of "idx + 1"] show ?thesis using Suc by simp
  qed
qed

lemma padStart_digits:
  "set s \<subseteq> set digit_chars \<Longrightarrow> set (padStart w (CHR ''0'') s) \<subseteq> set digit_chars"
  by (auto simp: padStart_def digit_chars_def)

lemma padStart_nonempty: "s \<noteq> [] \<Longrightarrow> padStart w c s \<noteq> []"
  by (simp add: padStart_def)

lemma length_padStart: "length (padStart w c s) = max w (length s)"
  by (simp add: padStart_def)

lemma renumberFrom_again:
  "renumberFrom padding idx (renumberFrom padding idx fs) = renumberFrom padding idx fs"
proof (induction fs arbitrary: idx)
  case Nil
  then show ?case by simp
next
  case (Cons f fs)
  have "extname (padStart (max 3 padding) (CHR ''0'') (toString_nat (idx + 1)) @ extname f) = extname f"
    by (intro extname_digits_ext padStart_nonempty padStart_digits toString_nat_nonempty
          toString_nat_digits extname_shape)
  then show ?case using Cons.IH by simp
qed

text \<open>
  The document branch renumbers as one expects. Among \<open>N\<close> final pages, page \<open>i + 1\<close> is
  named by its number, padded with zeros to \<open>max 3 (digits of N)\<close> characters, followed by
  the extension of its old name; the padded number has exactly that width; and
  renumbering the renumbered names gives the same names again.
\<close>

theorem renumber_fixed_width_idempotent:
  assumes "i < length finalPageFiles"
  shows "renumber finalPageFiles ! i =
           padStart (max 3 (length (toString_nat (length finalPageFiles)))) (CHR ''0'')
             (toString_nat (i + 1)) @ extname (finalPageFiles ! i)
     \<and> length (padStart (max 3 (length (toString_nat (length finalPageFiles)))) (CHR ''0'')
               (toString_nat (i + 1)))
         = max 3 (length (toString_nat (length finalPageFiles)))
     \<and> renumber (renumber finalPageFiles) = renumber finalPageFiles"
proof -
  have n: "renumber finalPageFiles ! i =
           padStart (max 3 (length (toString_nat (length finalPageFiles)))) (CHR ''0'')
             (toString_nat (i + 1)) @ extname (finalPageFiles ! i)"
    using assms by (simp add: renumber_def renumberFrom_nth)
  have "length (toString_nat (i + 1)) \<le> length (toString_nat (length finalPageFiles))"
    using assms by (intro length_toString_nat_mono) simp
  then have w: "length (padStart (max 3 (length (toString_nat (length finalPageFiles)))) (CHR ''0'')
               (toString_nat (i + 1)))
         = max 3 (length (toString_nat (length finalPageFiles)))"
    by (simp add: length_padStart)
  have r: "renumber (renumber finalPageFiles) = renumber finalPageFiles"
    by (simp add: renumber_def length_renumberFrom renumberFrom_again)
  show ?thesis using n w r by blast
qed

theorem renumber_fixed_width_idempotent_witness:
  "(1::nat) < length [''page-1.jpg'', ''split_2_b.jpg'', ''split_2_a.jpg'']
   \<and> renumber [''page-1.jpg'', ''split_2_b.jpg'', ''split_2_a.jpg''] ! 1 = ''002.jpg''
   \<and> renumber [''page-1.jpg'', ''split_2_b.jpg'', ''split_2_a.jpg''] = [''001.jpg'', ''002.jpg'', ''003.jpg'']
   \<and> renumber (renumber [''page-1.jpg'', ''split_2_b.jpg'', ''split_2_a.jpg''])
       = [''001.jpg'', ''002.jpg'', ''003.jpg'']"
proof -
  have h: "(1::nat) < length [''page-1.jpg'', ''split_2_b.jpg'', ''split_2_a.jpg'']" by simp
  have e: "renumber [''page-1.jpg'', ''split_2_b.jpg'', ''split_2_a.jpg''] = [''001.jpg'', ''002.jpg'', ''003.jpg'']"
    by (simp add: renumber_def js_eval path_eval)
  show ?thesis
    using h renumber_fixed_width_idempotent [OF h] by (simp add: e js_eval path_eval)
qed

text \<open>
  C7. The archive branch numbers its pages while it writes them, and takes the number
  before it looks at the image: \<open>processedCount\<close> is advanced, and only then a file of
  length 0 is skipped. An archive of the three images \<open>a.png\<close>, \<open>b.png\<close> (empty) and
  \<open>c.png\<close>, converted at 300 dpi, ends with the two final pages \<open>001.jpg\<close> and \<open>003.jpg\<close>:
  page 2 of 2 is not named \<open>002\<close>, as the renumbering of the document branch would name
  it.
\<close>

theorem archive_numbering_gap:
  "convert_archive sample_request True False [small_page, empty_page, last_page]
     = Inr \<lparr> finalPages = [''001.jpg'', ''003.jpg''], effective = Some (Num 3) \<rparr>
   \<and> renumber [''001.jpg'', ''003.jpg''] = [''001.jpg'', ''002.jpg'']"
proof -
  have o: "\<not> isOriginal sample_request"
    by (simp add: sample_request_def isOriginal_def)
  have s: "effStart sample_request = Num 1" "effEnd sample_request (Suc (Suc (Suc 0))) = Num 3"
    by (simp_all add: effStart_def effEnd_def pStart_def pEnd_def sample_request_def)
  have e: "archive_effectiveTotalPages sample_request (Suc (Suc (Suc 0))) = Num 3"
    by (simp add: archive_effectiveTotalPages_def s)
  have x: "outExt sample_request = ''.jpg''"
    by (simp add: outExt_def safeImgFormat_def sample_request_def js_eval)
  have b: "bytes small_page \<noteq> 0" "decoded small_page = Inr (800, 1200)"
    "bytes empty_page = 0" "bytes last_page \<noteq> 0" "decoded last_page = Inr (800, 1200)"
    by (simp_all add: small_page_def empty_page_def last_page_def)
  have a: "convert_archive sample_request True False [small_page, empty_page, last_page]
     = Inr \<lparr> finalPages = [''001.jpg'', ''003.jpg''], effective = Some (Num 3) \<rparr>"
    using o by (simp add: convert_archive_def e s x b Let_def js_eval)
  have r: "renumber [''001.jpg'', ''003.jpg''] = [''001.jpg'', ''002.jpg'']"
    by (simp add: renumber_def js_eval path_eval)
  show ?thesis using a r by simp
qed

section \<open>Splitting double pages\<close>

lemma isWide_ratio:
  "isWide f = (case decoded f of Inl e \<Rightarrow> False | Inr (w, h) \<Rightarrow> 0 < w \<and> 0 < h \<and> 6 * h < 5 * w)"
proof (cases "decoded f")
  case (Inl e)
  then show ?thesis by (simp add: isWide_def)
next
  case (Inr d)
  obtain w h where d: "d = (w, h)" by (cases d)
  have "(real w / real h > 1.2) = (6 * h < 5 * w)" if "0 < h"
  proof -
    have "(real w / real h > 1.2) = (real (6 * h) < real (5 * w))"
      using that by (simp add: field_simps)
    then show ?thesis by (simp only: of_nat_less_iff)
  qed
  then show ?thesis using Inr d by (auto simp: isWide_def)
qed

lemma splitLoop_concat:
  "splitLoop req imgFiles n i acc =
     acc @ concat (map (\<lambda>j. halves_or_page (\<not> isLtr req) j (imgFiles ! j)) [i ..< n])"
proof (induction req imgFiles n i acc rule: splitLoop.induct)
  case (1 req imgFiles n i acc)
  show ?case
  proof (cases "i < n")
    case False
    then show ?thesis by (subst splitLoop.simps) simp
  next
    case True
    then have u: "[i ..< n] = i # [i + 1 ..< n]" by (simp add: upt_conv_Cons)
    have p: "halves_or_page (\<not> isLtr req) i (imgFiles ! i) =
        (if isWide (imgFiles ! i) \<and> extractOk (imgFiles ! i)
         then (if isLtr req then [leftName i, rightName i] else [rightName i, leftName i])
         else [fname (imgFiles ! i)])"
      by (auto simp: halves_or_page_def isWide_ratio split: sum.splits)
    show ?thesis
    proof (cases "isWide (imgFiles ! i) \<and> extractOk (imgFiles ! i)")
      case w: True
      from "1.IH"(1) [OF True refl w] show ?thesis
        using True w by (subst splitLoop.simps) (simp add: u p)
    next
      case w: False
      from "1.IH"(2) [OF True refl w] show ?thesis
        using True by (subst splitLoop.simps) (simp add: u p w)
    qed
  qed
qed





lemma split_request_active: "splitActive split_request True"
  by (simp add: splitActive_def split_request_def sample_request_def isOriginal_def)





section \<open>Reported page count\<close>

text \<open>
  C3. A document of one landscape page, converted with \<open>splitDouble = auto\<close>: two
  renumbered pages go into the output, and the Result reports \<open>pages = 1\<close>, the value
  \<open>effectiveTotalPages\<close> had before the split.
\<close>

theorem reported_pages_ignore_split:
  "processConvertTask split_request True \<lparr> originalname = ''book.pdf'', path = ''upload/1'' \<rparr> one_wide_page
     = Inr (\<lparr> name = ''book.cbz'', size = 1000, pages = Some (Num 1), thumbnail = None \<rparr>,
            [''001.jpg'', ''002.jpg''])"
proof -
  have p: "isPdf ''book.pdf''" by (simp add: isPdf_def js_eval)
  have u: "decodeName ''book.pdf'' = ''book.pdf''"
    by (simp add: decodeName_ascii)
  have n: "stripStamp (parse_name ''book.pdf'') = ''book''"
    by (simp add: path_eval)
  have f: "outputFileName ''book'' (safeFormat split_request) = ''book.cbz''"
    by (simp add: outputFileName_def safeFormat_def allowedFormats_def split_request_def sample_request_def)
  have e: "pdf_effectiveTotalPages split_request (Some (Suc 0)) = Some (Num 1)"
    by (simp add: pdf_effectiveTotalPages_def pStart_def pEnd_def split_request_def sample_request_def)
  have l: "\<not> isLtr split_request" by (simp add: isLtr_def split_request_def)
  have x: "expandedFiles split_request True [wide_page] (Some (Num 1)) = [''split_1_b.jpg'', ''split_1_a.jpg'']"
    by (simp add: expandedFiles_def split_request_active splitLoop_concat l loopBound_def
          halves_or_page_def wide_page_def rightName_def leftName_def js_eval)
  have r: "renumber [''split_1_b.jpg'', ''split_1_a.jpg''] = [''001.jpg'', ''002.jpg'']"
    by (simp add: renumber_def js_eval path_eval)
  have d: "convert_document split_request True ''book.pdf'' (Some (Suc 0)) [wide_page]
       = Inr \<lparr> finalPages = [''001.jpg'', ''002.jpg''], effective = Some (Num 1) \<rparr>"
    by (simp add: convert_document_def e x r)
  have s: "safeFormat split_request \<noteq> ''folder''"
    by (simp add: safeFormat_def allowedFormats_def split_request_def sample_request_def)
  show ?thesis
    by (simp add: processConvertTask_def resolvePages_def one_wide_page_def u p n f d s)
qed

section \<open>Grouping\<close>

lemma map_of_pushTo_keys: "map fst (pushTo k a g) = map fst g"
  by (induction g) (auto simp: pushTo_def)

lemma groupFiles_inv:
  assumes "groupFiles fs g r = Inr (g', r')"
    and "distinct (map fst g)"
    and "\<forall>(k, v) \<in> set g. v = filter (\<lambda>x. 1 < length (parts x) \<and> hd (parts x) = k) ps"
    and "\<forall>x \<in> set ps. 1 < length (parts x) \<longrightarrow> hd (parts x) \<in> fst ` set g"
    and "r = filter (\<lambda>x. \<not> 1 < length (parts x)) ps"
  shows "distinct (map fst g')
     \<and> (\<forall>(k, v) \<in> set g'. v = filter (\<lambda>x. 1 < length (parts x) \<and> hd (parts x) = k) (ps @ fs))
     \<and> (\<forall>x \<in> set (ps @ fs). 1 < length (parts x) \<longrightarrow> hd (parts x) \<in> fst ` set g')
     \<and> r' = filter (\<lambda>x. \<not> 1 < length (parts x)) (ps @ fs)"
  using assms
proof (induction fs arbitrary: g r ps)
  case Nil
  then show ?case by simp
next
  case (Cons a fs)
  show ?case
  proof (cases "1 < length (parts a)")
    case False
    then have step: "groupFiles fs g (r @ [a]) = Inr (g', r')"
      using Cons.prems(1) by simp
    have "distinct (map fst g')
     \<and> (\<forall>(k, v) \<in> set g'. v = filter (\<lambda>x. 1 < length (parts x) \<and> hd (parts x) = k) ((ps @ [a]) @ fs))
     \<and> (\<forall>x \<in> set ((ps @ [a]) @ fs). 1 < length (parts x) \<longrightarrow> hd (parts x) \<in> fst ` set g')
     \<and> r' = filter (\<lambda>x. \<not> 1 < length (parts x)) ((ps @ [a]) @ fs)"
    proof (rule Cons.IH [OF step])
      show "distinct (map fst g)" by (rule Cons.prems(2))
      show "\<forall>(k, v) \<in> set g. v = filter (\<lambda>x. 1 < length (parts x) \<and> hd (parts x) = k) (ps @ [a])"
        using Cons.prems(3) False by auto
      show "\<forall>x \<in> set (ps @ [a]). 1 < length (parts x) \<longrightarrow> hd (parts x) \<in> fst ` set g"
        using Cons.prems(4) False by auto
      show "r @ [a] = filter (\<lambda>x. \<not> 1 < length (parts x)) (ps @ [a])"
        using Cons.prems(5) False by simp
    qed
    then show ?thesis by simp
  next
    case True
    let ?d = "hd (parts a)"
    show ?thesis
    proof (cases "map_of g ?d")
      case (Some v)
      then have step: "groupFiles fs (pushTo ?d a g) r = Inr (g', r')"
        using Cons.prems(1) True by simp
      have "(?d, v) \<in> set g" using Some by (rule map_of_SomeD)
      then have din: "?d \<in> fst ` set g" by (rule rev_image_eqI) simp
      have "distinct (map fst g')
       \<and> (\<forall>(k, v) \<in> set g'. v = filter (\<lambda>x. 1 < length (parts x) \<and> hd (parts x) = k) ((ps @ [a]) @ fs))
       \<and> (\<forall>x \<in> set ((ps @ [a]) @ fs). 1 < length (parts x) \<longrightarrow> hd (parts x) \<in> fst ` set g')
       \<and> r' = filter (\<lambda>x. \<not> 1 < length (parts x)) ((ps @ [a]) @ fs)"
      proof (rule Cons.IH [OF step])
        show "distinct (map fst (pushTo ?d a g))"
          using Cons.prems(2) by (simp add: map_of_pushTo_keys)
        show "\<forall>(k, v) \<in> set (pushTo ?d a g).
                v = filter (\<lambda>x. 1 < length (parts x) \<and> hd (parts x) = k) (ps @ [a])"
          using Cons.prems(3) True by (fastforce simp: pushTo_def split: if_splits)
        have "fst ` set (pushTo ?d a g) = fst ` set g"
          using map_of_pushTo_keys [of ?d a g] by (metis set_map)
        then show "\<forall>x \<in> set (ps @ [a]). 1 < length (parts x) \<longrightarrow> hd (parts x) \<in> fst ` set (pushTo ?d a g)"
          using Cons.prems(4) din by auto
        show "r = filter (\<lambda>x. \<not> 1 < length (parts x)) (ps @ [a])"
          using Cons.prems(5) True by simp
      qed
      then show ?thesis by simp
    next
      case None
      then have notin: "?d \<notin> fst ` set g" by (simp add: map_of_eq_None_iff)
      have step: "groupFiles fs (g @ [(?d, [a])]) r = Inr (g', r')"
        using Cons.prems(1) True None by (simp add: Let_def split: if_splits)
      have empty: "filter (\<lambda>x. 1 < length (parts x) \<and> hd (parts x) = ?d) ps = []"
      proof -
        have "\<not> (1 < length (parts x) \<and> hd (parts x) = ?d)" if "x \<in> set ps" for x
          using Cons.prems(4) notin that by metis
        then show ?thesis by (simp add: filter_empty_conv)
      qed
      have "distinct (map fst g')
       \<and> (\<forall>(k, v) \<in> set g'. v = filter (\<lambda>x. 1 < length (parts x) \<and> hd (parts x) = k) ((ps @ [a]) @ fs))
       \<and> (\<forall>x \<in> set ((ps @ [a]) @ fs). 1 < length (parts x) \<longrightarrow> hd (parts x) \<in> fst ` set g')
       \<and> r' = filter (\<lambda>x. \<not> 1 < length (parts x)) ((ps @ [a]) @ fs)"
      proof (rule Cons.IH [OF step])
        show "distinct (map fst (g @ [(?d, [a])]))"
          using Cons.prems(2) notin by simp
        show "\<forall>(k, v) \<in> set (g @ [(?d, [a])]).
                v = filter (\<lambda>x. 1 < length (parts x) \<and> hd (parts x) = k) (ps @ [a])"
          using Cons.prems(3) True notin empty by (auto simp: rev_image_eqI)
        show "\<forall>x \<in> set (ps @ [a]). 1 < length (parts x) \<longrightarrow> hd (parts x) \<in> fst ` set (g @ [(?d, [a])])"
          using Cons.prems(4) by auto
        show "r = filter (\<lambda>x. \<not> 1 < length (parts x)) (ps @ [a])"
          using Cons.prems(5) True by simp
      qed
      then show ?thesis by simp
    qed
  qed
qed

lemma Object_entries_mset: "mset (Object_entries g) = mset g"
proof -
  have "(\<lambda>(k, v). \<not> isArrayIndex k) = (\<lambda>e. \<not> (case e of (k, v) \<Rightarrow> isArrayIndex k))"
    by auto
  then show ?thesis by (simp add: Object_entries_def)
qed

lemma Object_entries_set: "set (Object_entries g) = set g"
  using Object_entries_mset [of g] by (metis set_mset_mset)

lemma Object_entries_distinct: "distinct (map fst (Object_entries g)) = distinct (map fst g)"
proof -
  have "mset (map fst (Object_entries g)) = mset (map fst g)"
    using Object_entries_mset [of g] by (metis mset_map)
  then show ?thesis by (rule mset_eq_imp_distinct_iff)
qed


section \<open>Which tasks hold a file\<close>

lemma classify_tasks:
  assumes "classify files = Inr tasks"
  shows "\<exists>g. distinct (map fst g)
     \<and> (\<forall>(k, v) \<in> set g. v = filter (\<lambda>x. 1 < length (parts x) \<and> hd (parts x) = k) files)
     \<and> (\<forall>x \<in> set files. 1 < length (parts x) \<longrightarrow> hd (parts x) \<in> fst ` set g)
     \<and> tasks = rootTask (filter (\<lambda>x. \<not> 1 < length (parts x) \<and> isImageFile x) files)
          @ concat (map folderTask (Object_entries g))
          @ map CONVERT (filter (\<lambda>x. \<not> 1 < length (parts x) \<and> \<not> isImageFile x) files)"
proof -
  from assms obtain g r where gr: "groupFiles files [] [] = Inr (g, r)"
    and t: "tasks = rootTask (filter isImageFile r) @ concat (map folderTask (Object_entries g))
          @ map CONVERT (filter (\<lambda>f. \<not> isImageFile f) r)"
    by (auto simp: classify_def split: sum.splits prod.splits)
  have inv: "distinct (map fst g)
     \<and> (\<forall>(k, v) \<in> set g. v = filter (\<lambda>x. 1 < length (parts x) \<and> hd (parts x) = k) ([] @ files))
     \<and> (\<forall>x \<in> set ([] @ files). 1 < length (parts x) \<longrightarrow> hd (parts x) \<in> fst ` set g)
     \<and> r = filter (\<lambda>x. \<not> 1 < length (parts x)) ([] @ files)"
    by (rule groupFiles_inv [OF gr]) simp_all
  then have r: "r = filter (\<lambda>x. \<not> 1 < length (parts x)) files" by simp
  show ?thesis
    using inv unfolding t r filter_filter by (intro exI [of _ g]) simp
qed

lemma owners_append: "owners (a @ b) f = owners a f @ owners b f"
  by (simp add: owners_def)

lemma owners_root: "owners (rootTask rootImages) f = (if f \<in> set rootImages then rootTask rootImages else [])"
  by (auto simp: owners_def rootTask_def)

lemma filter_eq_distinct: "distinct xs \<Longrightarrow> filter (\<lambda>x. f = x) xs = (if f \<in> set xs then [f] else [])"
  by (induction xs) auto

lemma owners_convert:
  "distinct docs \<Longrightarrow> owners (map CONVERT docs) f = (if f \<in> set docs then [CONVERT f] else [])"
  by (simp add: owners_def filter_map comp_def filter_eq_distinct)

lemma owners_folderTask:
  "owners (folderTask (k, v)) f =
     (if f \<in> set v \<and> isImageFile f then [MERGE (filter isImageFile v) k] else [])"
  by (auto simp: owners_def folderTask_def Let_def filter_empty_conv)

lemma owners_folders:
  assumes "distinct (map fst es)"
    and "\<forall>(k, v) \<in> set es. v = filter (\<lambda>x. 1 < length (parts x) \<and> hd (parts x) = k) files"
    and "f \<in> set files"
  shows "owners (concat (map folderTask es)) f =
     (if isImageFile f \<and> 1 < length (parts f) \<and> hd (parts f) \<in> fst ` set es
      then [MERGE (filter (\<lambda>x. (1 < length (parts x) \<and> hd (parts x) = hd (parts f)) \<and> isImageFile x) files)
              (hd (parts f))]
      else [])"
  using assms(1,2)
proof (induction es)
  case Nil
  then show ?case by (simp add: owners_def)
next
  case (Cons e es)
  obtain k v where e: "e = (k, v)" by (cases e)
  have v: "v = filter (\<lambda>x. 1 < length (parts x) \<and> hd (parts x) = k) files"
    using Cons.prems(2) e by simp
  have k: "k \<notin> fst ` set es" using Cons.prems(1) e by simp
  have IH: "owners (concat (map folderTask es)) f =
     (if isImageFile f \<and> 1 < length (parts f) \<and> hd (parts f) \<in> fst ` set es
      then [MERGE (filter (\<lambda>x. (1 < length (parts x) \<and> hd (parts x) = hd (parts f)) \<and> isImageFile x) files)
              (hd (parts f))]
      else [])"
    using Cons.IH Cons.prems by simp
  have mem: "(f \<in> set v) = (1 < length (parts f) \<and> hd (parts f) = k)"
    using assms(3) v by simp
  have img: "filter isImageFile v =
      filter (\<lambda>x. (1 < length (parts x) \<and> hd (parts x) = k) \<and> isImageFile x) files"
    unfolding v filter_filter ..
  show ?case
  proof (cases "isImageFile f \<and> 1 < length (parts f) \<and> hd (parts f) = k")
    case True
    then have "hd (parts f) \<notin> fst ` set es" using k by simp
    then show ?thesis
      using True by (simp add: e owners_append owners_folderTask IH mem img)
  next
    case False
    then show ?thesis
      by (auto simp: e owners_append owners_folderTask IH mem)
  qed
qed

text \<open>
  C6, as the code has it. When grouping succeeds and the uploaded files are pairwise
  different, every file is held by at most one task: an image inside a folder by the
  MERGE task of its first path segment, whose files are the images of that folder; a
  root image by the one MERGE task of all root images; a root file that is no image by
  its own CONVERT task. A file inside a folder that is no image is held by no task.
\<close>

theorem classification_membership:
  assumes "classify files = Inr tasks" and "distinct files" and "f \<in> set files"
  shows "owners tasks f =
     (if 1 < length (parts f) then
        (if isImageFile f
         then [MERGE (filter (\<lambda>x. (1 < length (parts x) \<and> hd (parts x) = hd (parts f)) \<and> isImageFile x) files)
                 (hd (parts f))]
         else [])
      else if isImageFile f
        then rootTask (filter (\<lambda>x. \<not> 1 < length (parts x) \<and> isImageFile x) files)
        else [CONVERT f])
     \<and> length (owners tasks f) = (if 1 < length (parts f) \<and> \<not> isImageFile f then 0 else 1)"
proof -
  from classify_tasks [OF assms(1)] obtain g where g: "distinct (map fst g)"
    "\<forall>(k, v) \<in> set g. v = filter (\<lambda>x. 1 < length (parts x) \<and> hd (parts x) = k) files"
    "\<forall>x \<in> set files. 1 < length (parts x) \<longrightarrow> hd (parts x) \<in> fst ` set g"
    and t: "tasks = rootTask (filter (\<lambda>x. \<not> 1 < length (parts x) \<and> isImageFile x) files)
          @ concat (map folderTask (Object_entries g))
          @ map CONVERT (filter (\<lambda>x. \<not> 1 < length (parts x) \<and> \<not> isImageFile x) files)"
    by blast
  have es: "distinct (map fst (Object_entries g))"
    "\<forall>(k, v) \<in> set (Object_entries g). v = filter (\<lambda>x. 1 < length (parts x) \<and> hd (parts x) = k) files"
    using g(1,2) by (simp_all add: Object_entries_distinct Object_entries_set)
  have key: "1 < length (parts f) \<Longrightarrow> hd (parts f) \<in> fst ` set (Object_entries g)"
    using g(3) assms(3) by (simp add: Object_entries_set)
  have docs: "distinct (filter (\<lambda>x. \<not> 1 < length (parts x) \<and> \<not> isImageFile x) files)"
    using assms(2) by simp
  have o: "owners tasks f =
     (if 1 < length (parts f) then
        (if isImageFile f
         then [MERGE (filter (\<lambda>x. (1 < length (parts x) \<and> hd (parts x) = hd (parts f)) \<and> isImageFile x) files)
                 (hd (parts f))]
         else [])
      else if isImageFile f
        then rootTask (filter (\<lambda>x. \<not> 1 < length (parts x) \<and> isImageFile x) files)
        else [CONVERT f])"
    unfolding t owners_append owners_root owners_convert [OF docs] owners_folders [OF es assms(3)]
    using assms(3) key by auto
  have "length (rootTask (filter (\<lambda>x. \<not> 1 < length (parts x) \<and> isImageFile x) files)) = 1"
    if "\<not> 1 < length (parts f)" "isImageFile f"
  proof -
    have "f \<in> set (filter (\<lambda>x. \<not> 1 < length (parts x) \<and> isImageFile x) files)"
      using that assms(3) by simp
    then have "filter (\<lambda>x. \<not> 1 < length (parts x) \<and> isImageFile x) files \<noteq> []"
      by (metis empty_iff empty_set)
    then show ?thesis by (simp add: rootTask_def)
  qed
  then have l: "length (owners tasks f) = (if 1 < length (parts f) \<and> \<not> isImageFile f then 0 else 1)"
    unfolding o by auto
  show ?thesis using o l by blast
qed


lemma sample_parts:
  "parts folder_page = [''chapter1'', ''page01.jpg'']"
  "parts folder_note = [''chapter1'', ''notes.txt'']"
  "parts root_cover = [''cover.PNG'']"
  "parts root_book = [''book.pdf'']"
  by (simp_all add: parts_def folder_page_def folder_note_def root_cover_def root_book_def)

lemma sample_images:
  "isImageFile folder_page" "\<not> isImageFile folder_note" "isImageFile root_cover" "\<not> isImageFile root_book"
  by (simp_all add: isImageFile_def folder_page_def folder_note_def root_cover_def root_book_def js_eval)

lemma sample_classify:
  "classify [folder_page, folder_note, root_cover, root_book] =
     Inr [MERGE [root_cover] ''cover'', MERGE [folder_page] ''chapter1'', CONVERT root_book]"
proof -
  have g: "groupFiles [folder_page, folder_note, root_cover, root_book] [] []
      = Inr ([(''chapter1'', [folder_page, folder_note])], [root_cover, root_book])"
    by (simp add: sample_parts prototypeKeys_def pushTo_def)
  have e: "Object_entries [(''chapter1'', [folder_page, folder_note])] = [(''chapter1'', [folder_page, folder_note])]"
    by (simp add: Object_entries_def isArrayIndex_def digit_chars_def)
  have n: "parse_name (originalname root_cover) = ''cover''"
    by (simp add: root_cover_def path_eval)
  show ?thesis
    unfolding classify_def g
    by (simp add: e n sample_images rootTask_def folderTask_def)
qed

theorem classification_membership_witness:
  "classify [folder_page, folder_note, root_cover, root_book] =
     Inr [MERGE [root_cover] ''cover'', MERGE [folder_page] ''chapter1'', CONVERT root_book]
   \<and> distinct [folder_page, folder_note, root_cover, root_book]
   \<and> folder_page \<in> set [folder_page, folder_note, root_cover, root_book]
   \<and> owners [MERGE [root_cover] ''cover'', MERGE [folder_page] ''chapter1'', CONVERT root_book] folder_page
       = [MERGE [folder_page] ''chapter1'']"
proof -
  have d: "distinct [folder_page, folder_note, root_cover, root_book]"
    by (simp add: folder_page_def folder_note_def root_cover_def root_book_def)
  have m: "folder_page \<in> set [folder_page, folder_note, root_cover, root_book]" by simp
  show ?thesis
    using sample_classify d classification_membership [OF sample_classify d m]
    by (simp add: sample_parts sample_images)
qed

text \<open>
  C6 as stated fails: the upload \<open>chapter1/notes.txt\<close> alone yields no task at all.
\<close>

theorem folder_document_in_no_task_counterexample:
  "classify [folder_note] = Inr [] \<and> owners [] folder_note = []"
proof -
  have g: "groupFiles [folder_note] [] [] = Inr ([(''chapter1'', [folder_note])], [])"
    by (simp add: sample_parts prototypeKeys_def)
  have e: "Object_entries [(''chapter1'', [folder_note])] = [(''chapter1'', [folder_note])]"
    by (simp add: Object_entries_def isArrayIndex_def digit_chars_def)
  show ?thesis
    unfolding classify_def g
    by (simp add: e sample_images rootTask_def folderTask_def owners_def)
qed

section \<open>The task loop stops at the first failure\<close>

lemma responses_simps [simp]:
  "responses (mkdir p w) = responses w"
  "responses (rm p w) = responses w"
  "responses (send r w) = responses w @ [r]"
  "responses (w\<lparr>log := log w @ [Started i]\<rparr>) = responses w"
  by (simp_all add: responses_def mkdir_def rm_def send_def)

lemma started_simps [simp]:
  "started (mkdir p w) = started w"
  "started (rm p w) = started w"
  "started (send r w) = started w"
  "started (w\<lparr>log := log w @ [Started i]\<rparr>) = started w @ [i]"
  by (simp_all add: started_def mkdir_def rm_def send_def)

lemma unlinkExisting_Cons:
  "unlinkExisting (f # fs) w = unlinkExisting fs (if path f \<in> existing w then rm (path f) w else w)"
  by (simp add: unlinkExisting_def)

lemma unlinkExisting_Nil: "unlinkExisting [] w = w"
  by (simp add: unlinkExisting_def)

lemma unlinkExisting_quiet [simp]:
  "responses (unlinkExisting fs w) = responses w" "started (unlinkExisting fs w) = started w"
  by (induction fs arbitrary: w) (simp_all add: unlinkExisting_Cons unlinkExisting_Nil)

lemma existing_unlinkExisting: "existing (unlinkExisting fs w) = existing w - path ` set fs"
  by (induction fs arbitrary: w) (auto simp: unlinkExisting_Cons unlinkExisting_Nil rm_def)

lemma log_unlinkExisting:
  "\<exists>swept. log (unlinkExisting fs w) = log w @ swept \<and> set swept \<subseteq> (\<lambda>f. Rm (path f)) ` set fs"
proof (induction fs arbitrary: w)
  case Nil
  then show ?case by (simp add: unlinkExisting_Nil)
next
  case (Cons f fs)
  let ?w = "if path f \<in> existing w then rm (path f) w else w"
  from Cons [of ?w] obtain swept where
    s: "log (unlinkExisting fs ?w) = log ?w @ swept" "set swept \<subseteq> (\<lambda>f. Rm (path f)) ` set fs"
    by blast
  show ?case
  proof (cases "path f \<in> existing w")
    case True
    then have "log (unlinkExisting (f # fs) w) = log w @ (Rm (path f) # swept)"
      using s(1) by (simp add: unlinkExisting_Cons rm_def)
    moreover have "set (Rm (path f) # swept) \<subseteq> (\<lambda>f. Rm (path f)) ` set (f # fs)"
      using s(2) by auto
    ultimately show ?thesis by blast
  next
    case False
    then have "log (unlinkExisting (f # fs) w) = log w @ swept"
      using s(1) by (simp add: unlinkExisting_Cons)
    moreover have "set swept \<subseteq> (\<lambda>f. Rm (path f)) ` set (f # fs)"
      using s(2) by auto
    ultimately show ?thesis by blast
  qed
qed

lemma runTask_fails:
  "proc t = Inl e \<Longrightarrow>
   runTask proc tempDirOf w idx t = (Inl e, mkdir (tempDirOf idx) (w\<lparr>log := log w @ [Started idx]\<rparr>))"
  by (simp add: runTask_def Let_def)

lemma runTask_late_failure:
  "proc (CONVERT file) = Inr r \<Longrightarrow> path file \<notin> existing w \<Longrightarrow> path file \<noteq> tempDirOf idx \<Longrightarrow>
   fst (runTask proc tempDirOf w idx (CONVERT file)) = Inl ''ENOENT: no such file or directory, unlink''
   \<and> tempDirOf idx \<notin> existing (snd (runTask proc tempDirOf w idx (CONVERT file)))"
  by (simp add: runTask_def Let_def mkdir_def rm_def)

lemma postConvert_delivered:
  "sendProgress activeConnections (requestId req) = Inr delivered \<Longrightarrow>
   postConvert activeConnections req proc tempDirOf files w = convertRoute proc tempDirOf files w"
  by (simp add: postConvert_def convertRoute_def)

lemma sendProgress_sample: "sendProgress [] (requestId sample_request) = Inr False"
  by (simp add: sendProgress_def sample_request_def prototypeKeys_def)

lemma runTask_started:
  "runTask proc tempDirOf w idx t = (res, w') \<Longrightarrow>
   started w' = started w @ [idx] \<and> responses w' = responses w"
  by (auto simp: runTask_def Let_def split: sum.splits task.splits if_splits)

lemma processTasks_append:
  "processTasks proc tempDirOf w idx ts1 rs = (Inr rs', w1) \<Longrightarrow>
   processTasks proc tempDirOf w idx (ts1 @ ts) rs
     = processTasks proc tempDirOf w1 (idx + length ts1) ts rs'"
proof (induction ts1 arbitrary: w idx rs)
  case Nil
  then show ?case by simp
next
  case (Cons t ts1)
  obtain res w' where rt: "runTask proc tempDirOf w idx t = (res, w')"
    by (cases "runTask proc tempDirOf w idx t")
  show ?case
  proof (cases res)
    case (Inl e)
    then show ?thesis using Cons.prems rt by simp
  next
    case (Inr r)
    then have "processTasks proc tempDirOf w' (idx + 1) ts1 (rs @ [r]) = (Inr rs', w1)"
      using Cons.prems rt by simp
    from Cons.IH [OF this] show ?thesis using rt Inr by simp
  qed
qed

lemma processTasks_started:
  "processTasks proc tempDirOf w idx ts rs = (Inr rs', w') \<Longrightarrow>
   started w' = started w @ [idx ..< idx + length ts] \<and> responses w' = responses w"
proof (induction ts arbitrary: w idx rs)
  case Nil
  then show ?case by simp
next
  case (Cons t ts)
  obtain res w1 where rt: "runTask proc tempDirOf w idx t = (res, w1)"
    by (cases "runTask proc tempDirOf w idx t")
  show ?case
  proof (cases res)
    case (Inl e)
    then show ?thesis using Cons.prems rt by simp
  next
    case (Inr r)
    then have "processTasks proc tempDirOf w1 (idx + 1) ts (rs @ [r]) = (Inr rs', w')"
      using Cons.prems rt by simp
    from Cons.IH [OF this] runTask_started [OF rt] show ?thesis
      by (simp add: upt_conv_Cons del: upt_Suc)
  qed
qed

lemma processTasks_stops:
  assumes "processTasks proc tempDirOf w 0 ts1 [] = (Inr rs, w1)" and "proc t = Inl e"
  shows "processTasks proc tempDirOf w 0 (ts1 @ t # ts2) []
     = (Inl e, mkdir (tempDirOf (length ts1)) (w1\<lparr>log := log w1 @ [Started (length ts1)]\<rparr>))"
  using processTasks_append [OF assms(1), of "t # ts2"] runTask_fails [of proc t e] assms(2)
  by simp

lemma convertRoute_failure:
  assumes "files \<noteq> []" and "classify files = Inr (ts1 @ t # ts2)"
    and "processTasks proc tempDirOf w 0 ts1 [] = (Inr rs, w1)" and "proc t = Inl e"
  shows "convertRoute proc tempDirOf files w =
     catchHandler files e (mkdir (tempDirOf (length ts1)) (w1\<lparr>log := log w1 @ [Started (length ts1)]\<rparr>))"
  using assms(1,2) processTasks_stops [OF assms(3,4)]
  by (simp add: convertRoute_def)

text \<open>
  C1, as the code has it. The task loop has no handler of its own. When the tasks before
  \<open>t\<close> complete and \<open>t\<close> throws, the route answers with the single response
  \<open>500 Conversion error: ...\<close>, which carries no Result, and the tasks started are
  exactly those up to and including \<open>t\<close>: no task after \<open>t\<close> is run.
\<close>

theorem failed_task_stops_batch:
  assumes "files \<noteq> []" and "classify files = Inr (ts1 @ t # ts2)"
    and "processTasks proc tempDirOf w 0 ts1 [] = (Inr rs, w1)" and "proc t = Inl e"
  shows "responses (convertRoute proc tempDirOf files w)
           = responses w @ [Error500 (''Conversion error: '' @ e)]
     \<and> started (convertRoute proc tempDirOf files w) = started w @ [0 ..< length ts1 + 1]"
  using processTasks_started [OF assms(3)]
  by (simp add: convertRoute_failure [OF assms] catchHandler_def)

text \<open>
  C9, as the code has it. When the processing of task \<open>t\<close> throws before the task reaches
  its own cleanup, the error response is sent first; after it the handler removes the
  staged uploads of the whole batch that still exist, and nothing else. The temporary
  directory of \<open>t\<close> is still there at the end.
\<close>

theorem failed_task_leaves_temp_dir:
  assumes "files \<noteq> []" and "classify files = Inr (ts1 @ t # ts2)"
    and "processTasks proc tempDirOf w 0 ts1 [] = (Inr rs, w1)" and "proc t = Inl e"
    and "tempDirOf (length ts1) \<notin> path ` set files"
  shows "tempDirOf (length ts1) \<in> existing (convertRoute proc tempDirOf files w)
     \<and> existing (convertRoute proc tempDirOf files w) \<inter> path ` set files = {}
     \<and> (\<exists>swept. log (convertRoute proc tempDirOf files w)
           = log w1 @ [Started (length ts1), Mkdir (tempDirOf (length ts1)),
                       Send (Error500 (''Conversion error: '' @ e))] @ swept
         \<and> set swept \<subseteq> (\<lambda>f. Rm (path f)) ` set files)"
proof -
  let ?wf = "mkdir (tempDirOf (length ts1)) (w1\<lparr>log := log w1 @ [Started (length ts1)]\<rparr>)"
  let ?ws = "send (Error500 (''Conversion error: '' @ e)) ?wf"
  have r: "convertRoute proc tempDirOf files w = unlinkExisting files ?ws"
    by (simp add: convertRoute_failure [OF assms(1-4)] catchHandler_def)
  have a: "tempDirOf (length ts1) \<in> existing (unlinkExisting files ?ws)"
    using assms(5) by (simp add: existing_unlinkExisting mkdir_def send_def)
  have b: "existing (unlinkExisting files ?ws) \<inter> path ` set files = {}"
    by (auto simp: existing_unlinkExisting)
  from log_unlinkExisting [of files ?ws] obtain swept where
    "log (unlinkExisting files ?ws) = log ?ws @ swept" "set swept \<subseteq> (\<lambda>f. Rm (path f)) ` set files"
    by blast
  then have c: "\<exists>swept. log (unlinkExisting files ?ws)
           = log w1 @ [Started (length ts1), Mkdir (tempDirOf (length ts1)),
                       Send (Error500 (''Conversion error: '' @ e))] @ swept
         \<and> set swept \<subseteq> (\<lambda>f. Rm (path f)) ` set files"
    by (intro exI [of _ swept]) (simp add: mkdir_def send_def)
  show ?thesis unfolding r using a b c by blast
qed


section \<open>A sample batch\<close>

lemma sample_docs_distinct: "doc_a \<noteq> doc_b" "doc_b \<noteq> doc_a" "doc_c \<noteq> doc_a"
  by (simp_all add: doc_a_def doc_b_def doc_c_def)

lemma sample_paths: "path doc_a = ''upload/a''" "path doc_b = ''upload/b''" "path doc_c = ''upload/c''"
  by (simp_all add: doc_a_def doc_b_def doc_c_def)

lemma staging_quiet [simp]: "responses (staging fs) = []" "started (staging fs) = []"
  by (simp_all add: responses_def started_def staging_def)

lemma sample_doc_parts:
  "parts doc_a = [''a.pdf'']" "parts doc_b = [''b.pdf'']" "parts doc_c = [''c.pdf'']"
  by (simp_all add: parts_def doc_a_def doc_b_def doc_c_def)

lemma sample_doc_images: "\<not> isImageFile doc_a" "\<not> isImageFile doc_b" "\<not> isImageFile doc_c"
  by (simp_all add: isImageFile_def doc_a_def doc_b_def doc_c_def js_eval)

lemma classify_documents:
  "classify [doc_a, doc_b] = Inr [CONVERT doc_a, CONVERT doc_b]"
  "classify [doc_b, doc_a, doc_c] = Inr [CONVERT doc_b, CONVERT doc_a, CONVERT doc_c]"
  "classify [doc_a] = Inr [CONVERT doc_a]"
  by (simp_all add: classify_def sample_doc_parts sample_doc_images Object_entries_def rootTask_def)

lemma sample_proc_a: "sample_proc (CONVERT doc_a) = Inl ''No images generated for a.pdf''"
proof -
  have "convert_document sample_request True ''a.pdf'' (Some (Suc 0)) [] = Inl ''No images generated for a.pdf''"
    by (simp add: convert_document_def)
  moreover have "isPdf ''a.pdf''" by (simp add: isPdf_def js_eval)
  moreover have "decodeName ''a.pdf'' = ''a.pdf''" by (simp add: decodeName_ascii)
  ultimately show ?thesis
    by (simp add: sample_proc_def processConvertTask_def resolvePages_def no_pages_def
          one_wide_page_def doc_a_def)
qed

lemma sample_proc_b: "sample_proc (CONVERT doc_b) = Inr result_b"
proof -
  have p: "isPdf ''b.pdf''" by (simp add: isPdf_def js_eval)
  have n: "stripStamp (parse_name ''b.pdf'') = ''b''" by (simp add: path_eval)
  have f: "outputFileName ''b'' (safeFormat sample_request) = ''b.cbz''"
    by (simp add: outputFileName_def safeFormat_def allowedFormats_def sample_request_def)
  have s: "safeFormat sample_request \<noteq> ''folder''"
    by (simp add: safeFormat_def allowedFormats_def sample_request_def)
  have e: "pdf_effectiveTotalPages sample_request (Some (Suc 0)) = Some (Num 1)"
    by (simp add: pdf_effectiveTotalPages_def pStart_def pEnd_def sample_request_def)
  have x: "expandedFiles sample_request True [wide_page] (Some (Num 1)) = [''page-1.jpg'']"
    by (simp add: expandedFiles_def splitActive_def sample_request_def slice0_def wide_page_def)
  have r: "renumber [''page-1.jpg''] = [''001.jpg'']"
    by (simp add: renumber_def js_eval path_eval)
  have d: "convert_document sample_request True ''b.pdf'' (Some (Suc 0)) [wide_page]
       = Inr \<lparr> finalPages = [''001.jpg''], effective = Some (Num 1) \<rparr>"
    by (simp add: convert_document_def e x r)
  have u: "decodeName ''b.pdf'' = ''b.pdf''" by (simp add: decodeName_ascii)
  have c: "processConvertTask sample_request True doc_b one_wide_page = Inr (result_b, [''001.jpg''])"
    by (simp add: processConvertTask_def resolvePages_def one_wide_page_def doc_b_def u p n f d s
          result_b_def)
  show ?thesis
    by (simp add: sample_proc_def sample_docs_distinct c)
qed

lemma sample_tempDirs: "sample_tempDirOf 0 = ''temp/task_0''" "sample_tempDirOf (Suc 0) = ''temp/task_1''"
  by (simp_all add: sample_tempDirOf_def toString_nat.simps digit_chars_def)

lemma sample_first_task:
  "processTasks sample_proc sample_tempDirOf (staging [doc_b, doc_a, doc_c]) 0 [CONVERT doc_b] []
     = (Inr [result_b],
        \<lparr> existing = {''upload/a'', ''upload/c''},
          log = [Started 0, Mkdir ''temp/task_0'', Rm ''temp/task_0'', Rm ''upload/b''] \<rparr>)"
  by (auto simp: runTask_def Let_def sample_proc_b sample_tempDirs staging_def mkdir_def rm_def
        sample_paths)

theorem failed_task_stops_batch_witness:
  "[doc_b, doc_a, doc_c] \<noteq> []
   \<and> classify [doc_b, doc_a, doc_c] = Inr ([CONVERT doc_b] @ CONVERT doc_a # [CONVERT doc_c])
   \<and> sample_proc (CONVERT doc_a) = Inl ''No images generated for a.pdf''
   \<and> responses (convertRoute sample_proc sample_tempDirOf [doc_b, doc_a, doc_c] (staging [doc_b, doc_a, doc_c]))
       = [Error500 ''Conversion error: No images generated for a.pdf'']
   \<and> started (convertRoute sample_proc sample_tempDirOf [doc_b, doc_a, doc_c] (staging [doc_b, doc_a, doc_c]))
       = [0, 1]"
proof -
  have n: "[doc_b, doc_a, doc_c] \<noteq> []" by simp
  have c: "classify [doc_b, doc_a, doc_c] = Inr ([CONVERT doc_b] @ CONVERT doc_a # [CONVERT doc_c])"
    by (simp add: classify_documents)
  have u: "[0 ..< length [CONVERT doc_b] + 1] = [0, 1]" by (simp add: upt_rec)
  show ?thesis
    using n c sample_proc_a failed_task_stops_batch [OF n c sample_first_task sample_proc_a]
    unfolding u
    by simp
qed

text \<open>
  C1 as stated fails: in the batch \<open>a.pdf, b.pdf\<close>, where \<open>a.pdf\<close> yields no image and
  \<open>b.pdf\<close> would convert, the only response is the error of \<open>a.pdf\<close> and the task of
  \<open>b.pdf\<close> is never started.
\<close>

theorem sibling_not_run_counterexample:
  "classify [doc_a, doc_b] = Inr [CONVERT doc_a, CONVERT doc_b]
   \<and> sample_proc (CONVERT doc_a) = Inl ''No images generated for a.pdf''
   \<and> sample_proc (CONVERT doc_b) = Inr result_b
   \<and> responses (convertRoute sample_proc sample_tempDirOf [doc_a, doc_b] (staging [doc_a, doc_b]))
       = [Error500 ''Conversion error: No images generated for a.pdf'']
   \<and> started (convertRoute sample_proc sample_tempDirOf [doc_a, doc_b] (staging [doc_a, doc_b])) = [0]"
proof -
  have r: "convertRoute sample_proc sample_tempDirOf [doc_a, doc_b] (staging [doc_a, doc_b])
      = catchHandler [doc_a, doc_b] ''No images generated for a.pdf''
          (mkdir (sample_tempDirOf 0) ((staging [doc_a, doc_b])\<lparr>log := log (staging [doc_a, doc_b]) @ [Started 0]\<rparr>))"
    by (simp add: convertRoute_def classify_documents runTask_fails [of sample_proc _ _ ] sample_proc_a)
  show ?thesis
    unfolding r
    by (simp add: classify_documents sample_proc_a sample_proc_b catchHandler_def)
qed

theorem failed_task_leaves_temp_dir_witness:
  "[doc_b, doc_a, doc_c] \<noteq> []
   \<and> classify [doc_b, doc_a, doc_c] = Inr ([CONVERT doc_b] @ CONVERT doc_a # [CONVERT doc_c])
   \<and> sample_proc (CONVERT doc_a) = Inl ''No images generated for a.pdf''
   \<and> sample_tempDirOf (length [CONVERT doc_b]) \<notin> path ` set [doc_b, doc_a, doc_c]
   \<and> ''temp/task_1'' \<in> existing (convertRoute sample_proc sample_tempDirOf [doc_b, doc_a, doc_c] (staging [doc_b, doc_a, doc_c]))
   \<and> ''upload/a'' \<notin> existing (convertRoute sample_proc sample_tempDirOf [doc_b, doc_a, doc_c] (staging [doc_b, doc_a, doc_c]))"
proof -
  have n: "[doc_b, doc_a, doc_c] \<noteq> []" by simp
  have c: "classify [doc_b, doc_a, doc_c] = Inr ([CONVERT doc_b] @ CONVERT doc_a # [CONVERT doc_c])"
    by (simp add: classify_documents)
  have t: "sample_tempDirOf (length [CONVERT doc_b]) \<notin> path ` set [doc_b, doc_a, doc_c]"
    by (simp add: sample_tempDirs sample_paths)
  have p: "''upload/a'' \<in> path ` set [doc_b, doc_a, doc_c]" by (simp add: sample_paths)
  show ?thesis
    using n c t p sample_proc_a
      failed_task_leaves_temp_dir [OF n c sample_first_task sample_proc_a t]
    by (auto simp: sample_tempDirs)
qed

text \<open>
  C9 as stated fails: after the failure of \<open>a.pdf\<close> its temporary directory still exists,
  and the upload is removed only after the response has been sent.
\<close>

theorem temp_dir_survives_failure_counterexample:
  "sample_proc (CONVERT doc_a) = Inl ''No images generated for a.pdf''
   \<and> convertRoute sample_proc sample_tempDirOf [doc_a] (staging [doc_a])
       = \<lparr> existing = {''temp/task_0''},
           log = [Started 0, Mkdir ''temp/task_0'',
                  Send (Error500 ''Conversion error: No images generated for a.pdf''),
                  Rm ''upload/a''] \<rparr>"
  by (auto simp: convertRoute_def classify_documents runTask_def Let_def sample_proc_a sample_tempDirs
        catchHandler_def unlinkExisting_def staging_def mkdir_def rm_def send_def sample_paths)

end
